theory Spec2Isabelle
  imports Complex_Main "HOL-Library.AList"
begin

section \<open>The prediction writer of boltz (src/boltz/data/write/writer.py)\<close>

text \<open>
  A shallow embedding of \<^verbatim>\<open>BoltzWriter\<close>: its constructor and \<^verbatim>\<open>write_on_batch_end\<close>.
  Python exceptions are values of \<open>error\<close>; numpy arrays that the code mutates in place
  live in an explicit store, addressed by references; every directory creation and file
  write is an event appended to a trace, in program order.
\<close>

subsection \<open>Values\<close>

datatype error = KeyError | ValueError | IndexError | FileNotFoundError

text \<open>Tensor entries are floats; the model reads them as rationals (no NaN, no rounding).\<close>

type_synonym scalar = rat

type_synonym vec3 = "scalar \<times> scalar \<times> scalar"

text \<open>A \<^verbatim>\<open>pathlib.Path\<close> is the list of its components; \<^verbatim>\<open>p / s\<close> appends one.\<close>

type_synonym path = "string list"

text \<open>
  Modelled from the spec: the row types of \<^verbatim>\<open>boltz.data.types\<close> (\<^verbatim>\<open>Structure\<close>, its atom,
  residue and chain rows, \<^verbatim>\<open>Interface\<close>, \<^verbatim>\<open>Record\<close> and its chain info), whose declarations
  are not among the sources. They carry the fields the data model of the specification
  names, which are the fields the writer reads and writes: an atom row its coordinates and
  presence flag, a residue row its presence flag, a chain row its \<^verbatim>\<open>asym_id\<close>.
\<close>

record atom =
  coords :: vec3
  is_present :: bool

record residue =
  res_is_present :: bool

record chain =
  asym_id :: nat

datatype interface = Interface nat nat

text \<open>
  A \<^verbatim>\<open>Structure\<close> object: the atom and residue tables are numpy arrays, held by
  reference (an address of the store); the other fields are never written.
\<close>

record Structure =
  atoms :: nat
  residues :: nat
  chains :: "chain list"
  mask :: "bool list"
  interfaces :: "interface list"

text \<open>The contents of a structure at one moment: what an encoder or \<^verbatim>\<open>asdict\<close> reads.\<close>

record snapshot =
  snap_atoms :: "atom list"
  snap_residues :: "residue list"
  snap_chains :: "chain list"
  snap_mask :: "bool list"
  snap_interfaces :: "interface list"

record chain_info =
  chain_id :: nat
  valid :: bool

record record_meta =
  record_id :: string
  record_chains :: "chain_info list"

text \<open>The dictionary \<^verbatim>\<open>confidence_summary_dict\<close>, before \<^verbatim>\<open>json.dumps\<close>.\<close>

datatype pykey = KStr string | KInt nat

datatype pyval = PFloat scalar | PDict "(pykey \<times> pyval) list"

text \<open>
  File contents are kept symbolic in the encoder that produced them: \<^verbatim>\<open>to_pdb(s)\<close>,
  \<^verbatim>\<open>to_mmcif(s)\<close> or \<^verbatim>\<open>to_mmcif(s, plddt)\<close>, \<^verbatim>\<open>np.savez_compressed(**asdict(s))\<close>,
  \<^verbatim>\<open>json.dumps(d, indent=4)\<close>, and the raw arrays.
\<close>

datatype content =
    PdbText snapshot
  | MmcifText snapshot "scalar list option"
  | NpzStructure snapshot
  | JsonText pyval
  | NpzPlddt "scalar list"
  | NpzPae "scalar list list"
  | NpzPde "scalar list list"
  | EmptyFile

datatype event = Mkdir path | WriteFile path content

text \<open>The store of numpy tables, the next free address, and the trace of file effects.\<close>

record world =
  atom_tables :: "nat \<Rightarrow> atom list option"
  residue_tables :: "nat \<Rightarrow> residue list option"
  next_ref :: nat
  trace :: "event list"

text \<open>A statement either finishes with a value or raises; both leave a world behind.\<close>

datatype 'a res = Ok 'a world | Raise error world

text \<open>
  The prediction dictionary, by key. The per-candidate vectors (\<^verbatim>\<open>confidence_score\<close>,
  \<^verbatim>\<open>ptm\<close>, \<^verbatim>\<open>iptm\<close>, ...) are the entries of \<open>scalar_fields\<close>, looked up by their key;
  \<^verbatim>\<open>coords\<close> is the tensor of shape (candidates, atoms, 3) that lines 92-134 index;
  \<^verbatim>\<open>pair_chains_iptm\<close> is a dictionary of dictionaries in insertion order.
\<close>

record prediction =
  exception :: "bool option"
  coords_field :: "vec3 list list option"
  masks :: "scalar list list option"
  scalar_fields :: "string \<Rightarrow> scalar list option"
  plddt :: "scalar list list option"
  pae :: "scalar list list list option"
  pde :: "scalar list list list option"
  pair_chains_iptm :: "(nat \<times> (nat \<times> scalar list) list) list option"
  intermediate_coords :: "vec3 list list list option"

record batch =
  record_field :: "record_meta list option"

text \<open>
  What the writer calls outside this file, taken as parameters: the archive that
  \<^verbatim>\<open>Structure.load\<close> reads for a path (\<open>None\<close> when there is no such file), the
  filtering \<^verbatim>\<open>Structure.remove_invalid_chains\<close> on the contents of a structure, and
  \<^verbatim>\<open>torch.argsort(_, descending=True)\<close>. Creating a directory and writing a file are
  taken to succeed, and the encoders to return.
\<close>

record env =
  disk :: "path \<Rightarrow> snapshot option"
  remove_invalid_chains :: "snapshot \<Rightarrow> snapshot"
  argsort_descending :: "scalar list \<Rightarrow> nat list"

record writer =
  data_dir :: path
  output_dir :: path
  output_format :: string
  failed :: nat

subsection \<open>Python primitives\<close>

definition dict_get :: "('k \<times> 'v) list \<Rightarrow> 'k \<Rightarrow> error + 'v" where
  "dict_get d k = (case map_of d k of None \<Rightarrow> Inl KeyError | Some v \<Rightarrow> Inr v)"

definition getitem :: "'a list \<Rightarrow> nat \<Rightarrow> error + 'a" where
  "getitem xs i = (if i < length xs then Inr (xs ! i) else Inl IndexError)"

definition digit_char :: "nat \<Rightarrow> char" where
  "digit_char d = char_of (48 + d)"

fun str_nat :: "nat \<Rightarrow> string" where
  "str_nat n = (if n < 10 then [digit_char n] else str_nat (n div 10) @ [digit_char (n mod 10)])"

declare str_nat.simps [simp del]

text \<open>\<^verbatim>\<open>tensor[mask]\<close> with a one-dimensional boolean mask: the rows at the true positions.\<close>

definition mask_select :: "'a list \<Rightarrow> bool list \<Rightarrow> error + 'a list" where
  "mask_select xs m =
     (if length m \<noteq> length xs then Inl IndexError
      else Inr (map fst (filter snd (zip xs m))))"

text \<open>\<^verbatim>\<open>pad_mask.bool()\<close>\<close>

definition to_bool :: "scalar list \<Rightarrow> bool list" where
  "to_bool m = map (\<lambda>x. x \<noteq> 0) m"

text \<open>
  numpy's assignment \<^verbatim>\<open>table["coords"] = rows\<close> into a field of shape (n, 3): the rows
  are broadcast, so k rows fit when k = n, a single row is repeated n times, and any
  other k raises \<^verbatim>\<open>ValueError\<close>.
\<close>

definition broadcast_rows :: "nat \<Rightarrow> 'a list \<Rightarrow> error + 'a list" where
  "broadcast_rows n rows =
     (if length rows = n then Inr rows
      else if length rows = 1 then Inr (replicate n (hd rows))
      else Inl ValueError)"

definition set_coords :: "atom list \<Rightarrow> vec3 list \<Rightarrow> error + atom list" where
  "set_coords tab rows =
     (case broadcast_rows (length tab) rows of
        Inl e \<Rightarrow> Inl e
      | Inr rs \<Rightarrow> Inr (map (\<lambda>(a, c). a\<lparr>coords := c\<rparr>) (zip tab rs)))"

definition set_present :: "atom list \<Rightarrow> atom list" where
  "set_present tab = map (\<lambda>a. a\<lparr>is_present := True\<rparr>) tab"

definition set_res_present :: "residue list \<Rightarrow> residue list" where
  "set_res_present tab = map (\<lambda>r. r\<lparr>res_is_present := True\<rparr>) tab"

subsection \<open>The constructor (lines 24-49)\<close>

definition init :: "string \<Rightarrow> string \<Rightarrow> string \<Rightarrow> world \<Rightarrow> writer res" where
  "init dd od fmt w =
     (if fmt \<notin> set [''pdb'', ''mmcif''] then Raise ValueError w
      else Ok \<lparr>data_dir = [dd], output_dir = [od], output_format = fmt, failed = 0\<rparr>
              (w\<lparr>trace := trace w @ [Mkdir [od]]\<rparr>))"

subsection \<open>Chain map (lines 83-87) and ranking (lines 74-75)\<close>

text \<open>
  \<^verbatim>\<open>for i, mask in enumerate(structure.mask): if mask: chain_map[len(chain_map)] = i\<close>
\<close>

definition chain_map_step :: "nat \<times> bool \<Rightarrow> (nat \<times> nat) list \<Rightarrow> (nat \<times> nat) list" where
  "chain_map_step im cm = (if snd im then AList.update (length cm) (fst im) cm else cm)"

definition compute_chain_map :: "bool list \<Rightarrow> (nat \<times> nat) list" where
  "compute_chain_map m = fold chain_map_step (enumerate 0 m) []"

text \<open>\<^verbatim>\<open>{idx.item(): rank for rank, idx in enumerate(argsort)}\<close>\<close>

definition idx_to_rank :: "nat list \<Rightarrow> (nat \<times> nat) list" where
  "idx_to_rank argsort = fold (\<lambda>(rank, idx) d. AList.update idx rank d) (enumerate 0 argsort) []"

text \<open>
  What \<^verbatim>\<open>torch.argsort(score, descending=True)\<close> promises of its result: a permutation
  of the indices along which the scores do not increase. The call does not pass
  \<^verbatim>\<open>stable=True\<close>, so the order of equal scores is not fixed.
\<close>

definition is_argsort_descending :: "scalar list \<Rightarrow> nat list \<Rightarrow> bool" where
  "is_argsort_descending score perm =
     (length perm = length score \<and> distinct perm \<and> list_all (\<lambda>i. i < length score) perm \<and>
      sorted_wrt (\<lambda>i j. score ! j \<le> score ! i) perm)"

subsection \<open>The store\<close>

definition atoms_of :: "world \<Rightarrow> nat \<Rightarrow> atom list" where
  "atoms_of w a = (case atom_tables w a of None \<Rightarrow> [] | Some t \<Rightarrow> t)"

definition residues_of :: "world \<Rightarrow> nat \<Rightarrow> residue list" where
  "residues_of w a = (case residue_tables w a of None \<Rightarrow> [] | Some t \<Rightarrow> t)"

definition read_structure :: "world \<Rightarrow> Structure \<Rightarrow> snapshot" where
  "read_structure w st =
     \<lparr>snap_atoms = atoms_of w (atoms st), snap_residues = residues_of w (residues st),
      snap_chains = chains st, snap_mask = mask st, snap_interfaces = interfaces st\<rparr>"

text \<open>A structure object over freshly allocated tables.\<close>

definition new_structure :: "snapshot \<Rightarrow> world \<Rightarrow> Structure \<times> world" where
  "new_structure s w =
     (\<lparr>atoms = next_ref w, residues = next_ref w, chains = snap_chains s, mask = snap_mask s,
       interfaces = snap_interfaces s\<rparr>,
      w\<lparr>atom_tables := (atom_tables w)(next_ref w \<mapsto> snap_atoms s),
        residue_tables := (residue_tables w)(next_ref w \<mapsto> snap_residues s),
        next_ref := next_ref w + 1\<rparr>)"

definition emit :: "event \<Rightarrow> world \<Rightarrow> world" where
  "emit e w = w\<lparr>trace := trace w @ [e]\<rparr>"

definition and_then :: "'a res \<Rightarrow> ('a \<Rightarrow> world \<Rightarrow> 'b res) \<Rightarrow> 'b res" where
  "and_then r f = (case r of Ok v w \<Rightarrow> f v w | Raise e w \<Rightarrow> Raise e w)"

primrec for_each :: "'a list \<Rightarrow> ('a \<Rightarrow> world \<Rightarrow> unit res) \<Rightarrow> world \<Rightarrow> unit res" where
  "for_each [] f w = Ok () w"
| "for_each (x # xs) f w = (case f x w of Ok _ w' \<Rightarrow> for_each xs f w' | Raise e w' \<Rightarrow> Raise e w')"

text \<open>A comprehension or an appending loop whose body may raise.\<close>

primrec collect :: "('a \<Rightarrow> error + 'b) \<Rightarrow> 'a list \<Rightarrow> error + 'b list" where
  "collect f [] = Inr []"
| "collect f (x # xs) =
     (case f x of Inl e \<Rightarrow> Inl e
      | Inr y \<Rightarrow> (case collect f xs of Inl e \<Rightarrow> Inl e | Inr ys \<Rightarrow> Inr (y # ys)))"

text \<open>\<^verbatim>\<open>Structure.load(path)\<close> and \<^verbatim>\<open>structure.remove_invalid_chains()\<close> (lines 81, 90)\<close>

definition load :: "env \<Rightarrow> path \<Rightarrow> world \<Rightarrow> Structure res" where
  "load ev p w =
     (case disk ev p of
        None \<Rightarrow> Raise FileNotFoundError w
      | Some s \<Rightarrow> Ok (fst (new_structure s w)) (snd (new_structure s w)))"

definition remove_invalid :: "env \<Rightarrow> Structure \<Rightarrow> world \<Rightarrow> Structure \<times> world" where
  "remove_invalid ev st w = new_structure (remove_invalid_chains ev (read_structure w st)) w"

subsection \<open>Structure assembly\<close>

text \<open>
  Lines 106-115, an intermediate step: the atom table is copied, the copy gets the
  coordinates and the presence flags, and the new object shares the residue table.
\<close>

definition assemble_intermediate :: "Structure \<Rightarrow> vec3 list \<Rightarrow> world \<Rightarrow> Structure res" where
  "assemble_intermediate st coord_unpad w =
     (let a = next_ref w;
          w1 = w\<lparr>atom_tables := (atom_tables w)(a \<mapsto> atoms_of w (atoms st)), next_ref := a + 1\<rparr>
      in case set_coords (atoms_of w1 a) coord_unpad of
           Inl e \<Rightarrow> Raise e w1
         | Inr tab \<Rightarrow>
             Ok (st\<lparr>atoms := a, interfaces := []\<rparr>)
                (w1\<lparr>atom_tables := (atom_tables w1)(a \<mapsto> set_present tab)\<rparr>))"

text \<open>
  Lines 133-148, the final structure: \<^verbatim>\<open>atoms = structure.atoms\<close> and
  \<^verbatim>\<open>residues = structure.residues\<close> name the tables of the structure itself, which the
  assignments then write.
\<close>

definition assemble_final :: "Structure \<Rightarrow> vec3 list \<Rightarrow> world \<Rightarrow> Structure res" where
  "assemble_final st coord_unpad w =
     (case set_coords (atoms_of w (atoms st)) coord_unpad of
        Inl e \<Rightarrow> Raise e w
      | Inr tab \<Rightarrow>
          Ok (st\<lparr>interfaces := []\<rparr>)
             (w\<lparr>atom_tables := (atom_tables w)(atoms st \<mapsto> set_present tab),
               residue_tables :=
                 (residue_tables w)(residues st \<mapsto> set_res_present (residues_of w (residues st)))\<rparr>))"

text \<open>Lines 151-160: the chain info of each chain of the new structure.\<close>

definition update_chain_info :: "(nat \<times> nat) list \<Rightarrow> record_meta \<Rightarrow> chain \<Rightarrow> error + chain_info" where
  "update_chain_info chain_map r c =
     (case dict_get chain_map (asym_id c) of
        Inl e \<Rightarrow> Inl e
      | Inr old_chain_idx \<Rightarrow>
          (case getitem (record_chains r) old_chain_idx of
             Inl e \<Rightarrow> Inl e
           | Inr old_chain_info \<Rightarrow> Inr (old_chain_info\<lparr>chain_id := asym_id c, valid := True\<rparr>)))"

subsection \<open>Writing files\<close>

definition struct_dir :: "writer \<Rightarrow> record_meta \<Rightarrow> path" where
  "struct_dir wr r = output_dir wr @ [record_id r]"

definition intermediate_dir :: "writer \<Rightarrow> record_meta \<Rightarrow> path" where
  "intermediate_dir wr r = output_dir wr @ [record_id r, ''intermediate'']"

text \<open>\<^verbatim>\<open>np.savez_compressed(path, ...)\<close> appends \<^verbatim>\<open>.npz\<close> to a name that lacks it.\<close>

definition npz_name :: "string \<Rightarrow> string" where
  "npz_name s = (if 4 \<le> length s \<and> drop (length s - 4) s = ''.npz'' then s else s @ ''.npz'')"

definition npz_path :: "path \<Rightarrow> path" where
  "npz_path p = butlast p @ [npz_name (last p)]"

text \<open>
  Lines 118-125. The file is opened for writing first, so in the last branch it is left
  empty and the archive goes to the name \<^verbatim>\<open>np.savez_compressed\<close> derives.
\<close>

definition write_intermediate_file :: "writer \<Rightarrow> path \<Rightarrow> snapshot \<Rightarrow> world \<Rightarrow> world" where
  "write_intermediate_file wr p s w =
     (if output_format wr = ''pdb'' then emit (WriteFile p (PdbText s)) w
      else if output_format wr = ''mmcif'' then emit (WriteFile p (MmcifText s None)) w
      else emit (WriteFile (npz_path p) (NpzStructure s)) (emit (WriteFile p EmptyFile) w))"

text \<open>Lines 99-125: one refinement step of one candidate.\<close>

definition intermediate_step ::
  "writer \<Rightarrow> (nat \<times> nat) list \<Rightarrow> record_meta \<Rightarrow> Structure \<Rightarrow> bool list \<Rightarrow> nat \<Rightarrow>
   nat \<times> vec3 list list \<Rightarrow> world \<Rightarrow> unit res" where
  "intermediate_step wr ranks r st pad model_idx sc w =
     (case getitem (snd sc) model_idx of
        Inl e \<Rightarrow> Raise e w
      | Inr model_step_coords \<Rightarrow>
     (case mask_select model_step_coords pad of
        Inl e \<Rightarrow> Raise e w
      | Inr coord_unpad \<Rightarrow>
     (case assemble_intermediate st coord_unpad w of
        Raise e w1 \<Rightarrow> Raise e w1
      | Ok new_st w1 \<Rightarrow>
     (case dict_get ranks model_idx of
        Inl e \<Rightarrow> Raise e w1
      | Inr rank \<Rightarrow>
          Ok () (write_intermediate_file wr
                  (intermediate_dir wr r @
                    [record_id r @ ''_model_'' @ str_nat rank @ ''_step_'' @ str_nat (fst sc) @
                     ''.'' @ output_format wr])
                  (read_structure w1 new_st) w1)))))"

text \<open>Lines 94-125.\<close>

definition intermediate_steps ::
  "writer \<Rightarrow> prediction \<Rightarrow> (nat \<times> nat) list \<Rightarrow> record_meta \<Rightarrow> Structure \<Rightarrow> bool list \<Rightarrow> nat \<Rightarrow>
   world \<Rightarrow> unit res" where
  "intermediate_steps wr pred ranks r st pad model_idx w =
     (case intermediate_coords pred of
        None \<Rightarrow> Ok () w
      | Some steps \<Rightarrow>
          for_each (enumerate 0 steps) (intermediate_step wr ranks r st pad model_idx)
            (emit (Mkdir (intermediate_dir wr r)) w))"

text \<open>Lines 128-160: the final structure of one candidate and its chain info.\<close>

definition final_structure ::
  "(nat \<times> nat) list \<Rightarrow> record_meta \<Rightarrow> Structure \<Rightarrow> vec3 list list \<Rightarrow> bool list \<Rightarrow> nat \<Rightarrow>
   world \<Rightarrow> Structure res" where
  "final_structure chain_map r st coord pad model_idx w =
     (case getitem coord model_idx of
        Inl e \<Rightarrow> Raise e w
      | Inr model_coord \<Rightarrow>
     (case mask_select model_coord pad of
        Inl e \<Rightarrow> Raise e w
      | Inr coord_unpad \<Rightarrow>
     (case assemble_final st coord_unpad w of
        Raise e w1 \<Rightarrow> Raise e w1
      | Ok new_st w1 \<Rightarrow>
     (case collect (update_chain_info chain_map r) (chains new_st) of
        Inl e \<Rightarrow> Raise e w1
      | Inr chain_info \<Rightarrow> Ok new_st w1))))"

text \<open>
  Lines 163-187. Each f-string is evaluated before its file is opened; in the mmcif
  branch \<^verbatim>\<open>prediction["plddt"][model_idx]\<close> is read after the file has been opened.
\<close>

definition write_structure ::
  "writer \<Rightarrow> prediction \<Rightarrow> (nat \<times> nat) list \<Rightarrow> record_meta \<Rightarrow> Structure \<Rightarrow> nat \<Rightarrow>
   world \<Rightarrow> unit res" where
  "write_structure wr pred ranks r new_st model_idx w =
     (let w1 = emit (Mkdir (struct_dir wr r)) w; s = read_structure w1 new_st in
      case dict_get ranks model_idx of
        Inl e \<Rightarrow> Raise e w1
      | Inr rank \<Rightarrow>
          if output_format wr = ''pdb'' then
            Ok () (emit (WriteFile
                     (struct_dir wr r @ [record_id r @ ''_model_'' @ str_nat rank @ ''.pdb''])
                     (PdbText s)) w1)
          else if output_format wr = ''mmcif'' then
            (case plddt pred of
               None \<Rightarrow>
                 Ok () (emit (WriteFile
                          (struct_dir wr r @ [record_id r @ ''_model_'' @ str_nat rank @ ''.cif''])
                          (MmcifText s None)) w1)
             | Some pl \<Rightarrow>
                 (case getitem pl model_idx of
                    Inl e \<Rightarrow>
                      Raise e (emit (WriteFile
                                 (struct_dir wr r @ [record_id r @ ''_model_'' @ str_nat rank @ ''.cif''])
                                 EmptyFile) w1)
                  | Inr v \<Rightarrow>
                      Ok () (emit (WriteFile
                               (struct_dir wr r @ [record_id r @ ''_model_'' @ str_nat rank @ ''.cif''])
                               (MmcifText s (Some v))) w1)))
          else
            Ok () (emit (WriteFile
                     (npz_path (struct_dir wr r @ [record_id r @ ''_model_'' @ str_nat rank @ ''.npz'']))
                     (NpzStructure s)) w1))"

subsection \<open>Confidence summary (lines 190-235)\<close>

definition scalar_keys :: "string list" where
  "scalar_keys =
     [''confidence_score'', ''ptm'', ''iptm'', ''ligand_iptm'', ''protein_iptm'',
      ''complex_plddt'', ''complex_iplddt'', ''complex_pde'', ''complex_ipde'']"

text \<open>\<^verbatim>\<open>confidence_summary_dict[key] = prediction[key][model_idx].item()\<close>\<close>

definition scalar_entry :: "prediction \<Rightarrow> nat \<Rightarrow> string \<Rightarrow> error + (pykey \<times> pyval)" where
  "scalar_entry pred model_idx key =
     (case scalar_fields pred key of
        None \<Rightarrow> Inl KeyError
      | Some t \<Rightarrow>
          (case getitem t model_idx of Inl e \<Rightarrow> Inl e | Inr v \<Rightarrow> Inr (KStr key, PFloat v)))"

text \<open>\<^verbatim>\<open>prediction["pair_chains_iptm"][idx1][idx2][model_idx].item()\<close>\<close>

definition pair_value ::
  "(nat \<times> (nat \<times> scalar list) list) list \<Rightarrow> nat \<Rightarrow> nat \<Rightarrow> nat \<Rightarrow> error + scalar" where
  "pair_value pc idx1 idx2 model_idx =
     (case dict_get pc idx1 of
        Inl e \<Rightarrow> Inl e
      | Inr row \<Rightarrow>
          (case dict_get row idx2 of
             Inl e \<Rightarrow> Inl e
           | Inr t \<Rightarrow> getitem t model_idx))"

definition pair_entry ::
  "(nat \<times> (nat \<times> scalar list) list) list \<Rightarrow> nat \<Rightarrow> nat \<Rightarrow> nat \<Rightarrow> error + (pykey \<times> pyval)" where
  "pair_entry pc model_idx idx1 idx2 =
     (case pair_value pc idx1 idx2 model_idx of Inl e \<Rightarrow> Inl e | Inr v \<Rightarrow> Inr (KInt idx2, PFloat v))"

definition chains_ptm ::
  "(nat \<times> (nat \<times> scalar list) list) list \<Rightarrow> nat \<Rightarrow> error + (pykey \<times> pyval) list" where
  "chains_ptm pc model_idx = collect (\<lambda>idx. pair_entry pc model_idx idx idx) (map fst pc)"

definition pair_row ::
  "(nat \<times> (nat \<times> scalar list) list) list \<Rightarrow> nat \<Rightarrow> nat \<Rightarrow> error + (pykey \<times> pyval)" where
  "pair_row pc model_idx idx1 =
     (case dict_get pc idx1 of
        Inl e \<Rightarrow> Inl e
      | Inr row \<Rightarrow>
          (case collect (pair_entry pc model_idx idx1) (map fst row) of
             Inl e \<Rightarrow> Inl e
           | Inr entries \<Rightarrow> Inr (KInt idx1, PDict entries)))"

definition confidence_summary :: "prediction \<Rightarrow> nat \<Rightarrow> error + pyval" where
  "confidence_summary pred model_idx =
     (case collect (scalar_entry pred model_idx) scalar_keys of
        Inl e \<Rightarrow> Inl e
      | Inr scalars \<Rightarrow>
     (case pair_chains_iptm pred of
        None \<Rightarrow> Inl KeyError
      | Some pc \<Rightarrow>
     (case chains_ptm pc model_idx of
        Inl e \<Rightarrow> Inl e
      | Inr cp \<Rightarrow>
     (case collect (pair_row pc model_idx) (map fst pc) of
        Inl e \<Rightarrow> Inl e
      | Inr pci \<Rightarrow>
          Inr (PDict (scalars @
                 [(KStr ''chains_ptm'', PDict cp), (KStr ''pair_chains_iptm'', PDict pci)]))))))"

definition write_confidence ::
  "writer \<Rightarrow> prediction \<Rightarrow> (nat \<times> nat) list \<Rightarrow> record_meta \<Rightarrow> nat \<Rightarrow> world \<Rightarrow> unit res" where
  "write_confidence wr pred ranks r model_idx w =
     (case plddt pred of
        None \<Rightarrow> Ok () w
      | Some pl \<Rightarrow>
     (case dict_get ranks model_idx of
        Inl e \<Rightarrow> Raise e w
      | Inr rank \<Rightarrow>
     (case confidence_summary pred model_idx of
        Inl e \<Rightarrow> Raise e w
      | Inr summary \<Rightarrow>
     (let w1 = emit (WriteFile
                  (struct_dir wr r @ [''confidence_'' @ record_id r @ ''_model_'' @ str_nat rank @ ''.json''])
                  (JsonText summary)) w
      in case getitem pl model_idx of
           Inl e \<Rightarrow> Raise e w1
         | Inr v \<Rightarrow>
             Ok () (emit (WriteFile
                      (npz_path (struct_dir wr r @
                         [''plddt_'' @ record_id r @ ''_model_'' @ str_nat rank @ ''.npz'']))
                      (NpzPlddt v)) w1)))))"

text \<open>Lines 237-253.\<close>

definition write_pae ::
  "writer \<Rightarrow> prediction \<Rightarrow> (nat \<times> nat) list \<Rightarrow> record_meta \<Rightarrow> nat \<Rightarrow> world \<Rightarrow> unit res" where
  "write_pae wr pred ranks r model_idx w =
     (case pae pred of
        None \<Rightarrow> Ok () w
      | Some t \<Rightarrow>
     (case getitem t model_idx of
        Inl e \<Rightarrow> Raise e w
      | Inr v \<Rightarrow>
     (case dict_get ranks model_idx of
        Inl e \<Rightarrow> Raise e w
      | Inr rank \<Rightarrow>
          Ok () (emit (WriteFile
                   (npz_path (struct_dir wr r @
                      [''pae_'' @ record_id r @ ''_model_'' @ str_nat rank @ ''.npz'']))
                   (NpzPae v)) w))))"

definition write_pde ::
  "writer \<Rightarrow> prediction \<Rightarrow> (nat \<times> nat) list \<Rightarrow> record_meta \<Rightarrow> nat \<Rightarrow> world \<Rightarrow> unit res" where
  "write_pde wr pred ranks r model_idx w =
     (case pde pred of
        None \<Rightarrow> Ok () w
      | Some t \<Rightarrow>
     (case getitem t model_idx of
        Inl e \<Rightarrow> Raise e w
      | Inr v \<Rightarrow>
     (case dict_get ranks model_idx of
        Inl e \<Rightarrow> Raise e w
      | Inr rank \<Rightarrow>
          Ok () (emit (WriteFile
                   (npz_path (struct_dir wr r @
                      [''pde_'' @ record_id r @ ''_model_'' @ str_nat rank @ ''.npz'']))
                   (NpzPde v)) w))))"

subsection \<open>The batch (lines 61-253)\<close>

text \<open>The body of \<^verbatim>\<open>for model_idx in range(coord.shape[0])\<close>.\<close>

definition process_candidate ::
  "writer \<Rightarrow> prediction \<Rightarrow> (nat \<times> nat) list \<Rightarrow> (nat \<times> nat) list \<Rightarrow> record_meta \<Rightarrow> Structure \<Rightarrow>
   vec3 list list \<Rightarrow> bool list \<Rightarrow> nat \<Rightarrow> world \<Rightarrow> unit res" where
  "process_candidate wr pred ranks chain_map r st coord pad model_idx w =
     and_then (intermediate_steps wr pred ranks r st pad model_idx w) (\<lambda>_ w1.
     and_then (final_structure chain_map r st coord pad model_idx w1) (\<lambda>new_st w2.
     and_then (write_structure wr pred ranks r new_st model_idx w2) (\<lambda>_ w3.
     and_then (write_confidence wr pred ranks r model_idx w3) (\<lambda>_ w4.
     and_then (write_pae wr pred ranks r model_idx w4) (\<lambda>_ w5.
     write_pde wr pred ranks r model_idx w5)))))"

text \<open>
  The body of \<^verbatim>\<open>for record, coord, pad_mask in zip(records, coords, pad_masks)\<close>
  (lines 79-253): the chain map is computed from the mask of the loaded structure, then
  the invalid chains are removed, then the candidates \<^verbatim>\<open>range(coord.shape[0])\<close> follow.
\<close>

definition process_record ::
  "env \<Rightarrow> writer \<Rightarrow> prediction \<Rightarrow> (nat \<times> nat) list \<Rightarrow>
   record_meta \<times> vec3 list list \<times> scalar list \<Rightarrow> world \<Rightarrow> unit res" where
  "process_record ev wr pred ranks rcm w =
     (case rcm of (r, coord, pad_mask) \<Rightarrow>
     (case load ev (data_dir wr @ [record_id r @ ''.npz'']) w of
        Raise e w1 \<Rightarrow> Raise e w1
      | Ok loaded w1 \<Rightarrow>
          (let chain_map = compute_chain_map (mask loaded);
               st = fst (remove_invalid ev loaded w1);
               w2 = snd (remove_invalid ev loaded w1)
           in for_each [0..<length coord]
                (process_candidate wr pred ranks chain_map r st coord (to_bool pad_mask)) w2)))"

text \<open>
  Lines 66-78: \<^verbatim>\<open>coords.unsqueeze(0)\<close> puts the whole tensor under a new first axis of
  length one, and the ranking is computed before the loop over the records.
\<close>

definition batch_body :: "env \<Rightarrow> writer \<Rightarrow> prediction \<Rightarrow> batch \<Rightarrow> world \<Rightarrow> unit res" where
  "batch_body ev wr pred b w =
     (case record_field b of
        None \<Rightarrow> Raise KeyError w
      | Some records \<Rightarrow>
     (case coords_field pred of
        None \<Rightarrow> Raise KeyError w
      | Some cs \<Rightarrow>
     (case masks pred of
        None \<Rightarrow> Raise KeyError w
      | Some pad_masks \<Rightarrow>
     (case scalar_fields pred ''confidence_score'' of
        None \<Rightarrow> Raise KeyError w
      | Some score \<Rightarrow>
          for_each (zip records (zip [cs] pad_masks))
            (process_record ev wr pred (idx_to_rank (argsort_descending ev score))) w))))"

text \<open>Lines 61-63, then the body. The writer comes back with its counter.\<close>

definition write_on_batch_end ::
  "env \<Rightarrow> writer \<Rightarrow> prediction \<Rightarrow> batch \<Rightarrow> world \<Rightarrow> writer \<times> unit res" where
  "write_on_batch_end ev wr pred b w =
     (case exception pred of
        None \<Rightarrow> (wr, Raise KeyError w)
      | Some exc \<Rightarrow>
          if exc then (wr\<lparr>failed := failed wr + 1\<rparr>, Ok () w)
          else (wr, batch_body ev wr pred b w))"

text \<open>The world a statement leaves behind, and the events it added to a trace.\<close>

definition world_of :: "'a res \<Rightarrow> world" where
  "world_of r = (case r of Ok _ w \<Rightarrow> w | Raise _ w \<Rightarrow> w)"

definition raised :: "'a res \<Rightarrow> error option" where
  "raised r = (case r of Ok _ _ \<Rightarrow> None | Raise e _ \<Rightarrow> Some e)"

definition written :: "world \<Rightarrow> (path \<times> content) list" where
  "written w = concat (map (\<lambda>e. case e of Mkdir _ \<Rightarrow> [] | WriteFile p c \<Rightarrow> [(p, c)]) (trace w))"

section \<open>Specification-side definitions\<close>

text \<open>The positions of the true entries of a validity mask, in increasing order.\<close>

definition true_positions :: "bool list \<Rightarrow> nat list" where
  "true_positions v = filter (\<lambda>i. v ! i) [0..<length v]"

text \<open>
  The confidence summary the specification describes, for a candidate \<open>i\<close>: the nine
  scalar fields, then \<^verbatim>\<open>chains_ptm\<close> with the diagonal entry of every chain, then
  \<^verbatim>\<open>pair_chains_iptm\<close> with every pair the batch supplied, both in the batch's order.
\<close>

definition expected_summary ::
  "prediction \<Rightarrow> (nat \<times> (nat \<times> scalar list) list) list \<Rightarrow> nat \<Rightarrow> pyval" where
  "expected_summary pred pc i =
     PDict (map (\<lambda>k. (KStr k, PFloat (the (scalar_fields pred k) ! i))) scalar_keys @
       [(KStr ''chains_ptm'',
           PDict (map (\<lambda>(k, row). (KInt k, PFloat (the (map_of row k) ! i))) pc)),
        (KStr ''pair_chains_iptm'',
           PDict (map (\<lambda>(k1, row). (KInt k1, PDict (map (\<lambda>(k2, t). (KInt k2, PFloat (t ! i))) row))) pc))])"

text \<open>Reading a nested dictionary along a list of keys.\<close>

fun py_path :: "pyval \<Rightarrow> pykey list \<Rightarrow> pyval option" where
  "py_path v [] = Some v"
| "py_path (PDict d) (k # ks) = (case map_of d k of None \<Rightarrow> None | Some v \<Rightarrow> py_path v ks)"
| "py_path (PFloat x) (k # ks) = None"

text \<open>The suffix of a structure file in the layout of the specification.\<close>

definition final_suffix :: "writer \<Rightarrow> string" where
  "final_suffix wr =
     (if output_format wr = ''pdb'' then ''pdb''
      else if output_format wr = ''mmcif'' then ''cif'' else ''npz'')"

definition starts_with :: "string \<Rightarrow> string \<Rightarrow> bool" where
  "starts_with pre s = (take (length pre) s = pre)"

text \<open>
  A path of the layout that names record \<open>r\<close> and rank \<open>k\<close>: a file of the record's
  directory called \<^verbatim>\<open><id>_model_<k>.\<close>, \<^verbatim>\<open>confidence_<id>_model_<k>.\<close>,
  \<^verbatim>\<open>plddt_<id>_model_<k>.\<close>, \<^verbatim>\<open>pae_<id>_model_<k>.\<close> or \<^verbatim>\<open>pde_<id>_model_<k>.\<close> and a suffix,
  or a file of its \<^verbatim>\<open>intermediate\<close> directory called \<^verbatim>\<open><id>_model_<k>_step_\<close> and the rest.
\<close>

definition named_by_rank :: "writer \<Rightarrow> record_meta \<Rightarrow> nat \<Rightarrow> path \<Rightarrow> bool" where
  "named_by_rank wr r k p =
     (p \<noteq> [] \<and>
      ((butlast p = struct_dir wr r \<and>
        (\<exists>kind\<in>set ['''', ''confidence_'', ''plddt_'', ''pae_'', ''pde_''].
           starts_with (kind @ record_id r @ ''_model_'' @ str_nat k @ ''.'') (last p))) \<or>
       (butlast p = intermediate_dir wr r \<and>
        starts_with (record_id r @ ''_model_'' @ str_nat k @ ''_step_'') (last p))))"

text \<open>From \<open>w\<close> to \<open>w'\<close> the trace only grew, and every file written has a path in \<open>P\<close>.\<close>

definition only_writes :: "(path \<Rightarrow> bool) \<Rightarrow> world \<Rightarrow> world \<Rightarrow> bool" where
  "only_writes P w w' =
     (\<exists>evs. trace w' = trace w @ evs \<and> list_all (\<lambda>e. case e of Mkdir _ \<Rightarrow> True | WriteFile p _ \<Rightarrow> P p) evs)"

text \<open>The paths that name record \<open>r\<close> and the rank of candidate \<open>i\<close>, or of any candidate.\<close>

definition rank_names :: "writer \<Rightarrow> record_meta \<Rightarrow> (nat \<times> nat) list \<Rightarrow> nat \<Rightarrow> path \<Rightarrow> bool" where
  "rank_names wr r ranks i p = (\<exists>k. map_of ranks i = Some k \<and> named_by_rank wr r k p)"

definition record_names :: "writer \<Rightarrow> record_meta \<Rightarrow> (nat \<times> nat) list \<Rightarrow> path \<Rightarrow> bool" where
  "record_names wr r ranks p = (\<exists>i k. map_of ranks i = Some k \<and> named_by_rank wr r k p)"

text \<open>The value a statement returned, if it did.\<close>

definition value_of :: "'a res \<Rightarrow> 'a option" where
  "value_of r = (case r of Ok v _ \<Rightarrow> Some v | Raise _ _ \<Rightarrow> None)"

section \<open>Concrete inputs\<close>

text \<open>
  One record \<^verbatim>\<open>r1\<close> of two chains, the first masked out, with three atoms; four padded
  slots; two candidates with scores 0.2 and 0.9. The filtering used for it keeps the atoms
  and renumbers the chains that stay.
\<close>

definition ex_remove :: "snapshot \<Rightarrow> snapshot" where
  "ex_remove s =
     s\<lparr>snap_chains := map (\<lambda>i. \<lparr>asym_id = i\<rparr>) [0..<length (filter id (snap_mask s))]\<rparr>"

text \<open>
  The argsort of the examples: descending, by insertion. Their scores are pairwise
  different, so the permutation is the only descending one.
\<close>

definition stable_argsort :: "scalar list \<Rightarrow> nat list" where
  "stable_argsort score = map snd (sort_key (\<lambda>p. - fst p) (zip score [0..<length score]))"

definition ex_snapshot :: snapshot where
  "ex_snapshot =
     \<lparr>snap_atoms = replicate 3 \<lparr>coords = (0, 0, 0), is_present = False\<rparr>,
      snap_residues = [\<lparr>res_is_present = False\<rparr>],
      snap_chains = [\<lparr>asym_id = 0\<rparr>, \<lparr>asym_id = 1\<rparr>],
      snap_mask = [False, True],
      snap_interfaces = [Interface 0 1]\<rparr>"

definition ex_disk :: "path \<Rightarrow> snapshot option" where
  "ex_disk p = (if p = [''data'', ''r1.npz''] \<or> p = [''data'', ''r2.npz''] then Some ex_snapshot else None)"

definition ex_env :: env where
  "ex_env = \<lparr>disk = ex_disk, remove_invalid_chains = ex_remove, argsort_descending = stable_argsort\<rparr>"

definition w0 :: world where
  "w0 = \<lparr>atom_tables = Map.empty, residue_tables = Map.empty, next_ref = 0, trace = []\<rparr>"

definition ex_writer :: writer where
  "ex_writer = \<lparr>data_dir = [''data''], output_dir = [''out''], output_format = ''mmcif'', failed = 0\<rparr>"

definition ex_coords :: "vec3 list list" where
  "ex_coords = [[(1, 1, 1), (2, 2, 2), (9, 9, 9), (3, 3, 3)], [(4, 4, 4), (5, 5, 5), (9, 9, 9), (6, 6, 6)]]"

definition ex_scalars :: "string \<Rightarrow> scalar list option" where
  "ex_scalars k = (if k = ''confidence_score'' then Some [1 / 5, 9 / 10] else None)"

definition ex_pred :: prediction where
  "ex_pred =
     \<lparr>exception = Some False, coords_field = Some ex_coords, masks = Some [[1, 1, 0, 1]],
      scalar_fields = ex_scalars, plddt = None, pae = None, pde = None,
      pair_chains_iptm = None, intermediate_coords = None\<rparr>"

definition ex_record :: record_meta where
  "ex_record =
     \<lparr>record_id = ''r1'',
      record_chains = [\<lparr>chain_id = 0, valid = False\<rparr>, \<lparr>chain_id = 1, valid = True\<rparr>]\<rparr>"

definition ex_batch :: batch where
  "ex_batch = \<lparr>record_field = Some [ex_record]\<rparr>"

text \<open>A filtered base structure of one atom and one residue, both marked absent.\<close>

definition base_snapshot :: snapshot where
  "base_snapshot =
     \<lparr>snap_atoms = [\<lparr>coords = (0, 0, 0), is_present = False\<rparr>],
      snap_residues = [\<lparr>res_is_present = False\<rparr>],
      snap_chains = [\<lparr>asym_id = 0\<rparr>], snap_mask = [True], snap_interfaces = []\<rparr>"

definition base_st :: Structure where
  "base_st = fst (new_structure base_snapshot w0)"

definition base_world :: world where
  "base_world = snd (new_structure base_snapshot w0)"

text \<open>Predictions with all confidence vectors and the pairwise table, without and with \<^verbatim>\<open>plddt\<close>.\<close>

definition full_scalars :: "string \<Rightarrow> scalar list option" where
  "full_scalars k = (if k \<in> set scalar_keys then Some [1 / 5, 9 / 10] else None)"

definition ex_pairs :: "(nat \<times> (nat \<times> scalar list) list) list" where
  "ex_pairs = [(0, [(0, [1 / 2, 3 / 5]), (1, [1 / 4, 1 / 3])]), (1, [(0, [1 / 6, 1 / 7]), (1, [1 / 8, 1 / 9])])]"

definition conf_pred :: prediction where
  "conf_pred = ex_pred\<lparr>scalar_fields := full_scalars, pair_chains_iptm := Some ex_pairs\<rparr>"

definition ex_plddt :: "scalar list list" where
  "ex_plddt = [[1 / 2, 1 / 2, 0, 1 / 2], [3 / 4, 3 / 4, 0, 3 / 4]]"

definition plddt_pred :: prediction where
  "plddt_pred = conf_pred\<lparr>plddt := Some ex_plddt\<rparr>"

text \<open>A batch of two records, each with its mask.\<close>

definition two_batch :: batch where
  "two_batch = \<lparr>record_field = Some [ex_record, ex_record\<lparr>record_id := ''r2''\<rparr>]\<rparr>"

definition two_pred :: prediction where
  "two_pred = ex_pred\<lparr>masks := Some [[1, 1, 0, 1], [1, 1, 0, 1]]\<rparr>"


section \<open>Chain map\<close>

lemma update_fresh: "k \<notin> fst ` set al \<Longrightarrow> AList.update k v al = al @ [(k, v)]"
  by (induction al) auto

lemma chain_map_fold:
  "map fst acc = [0..<length acc] \<Longrightarrow>
   fold chain_map_step (enumerate k m) acc =
     acc @ zip [length acc..<length acc + length (filter id m)] (map fst (filter snd (enumerate k m)))"
proof (induction m arbitrary: k acc)
  case Nil
  then show ?case by simp
next
  case (Cons b m)
  show ?case
  proof (cases b)
    case True
    have fresh: "length acc \<notin> fst ` set acc"
    proof -
      have "fst ` set acc = set (map fst acc)" by simp
      also have "\<dots> = {0..<length acc}" using Cons.prems by simp
      finally show ?thesis by simp
    qed
    let ?acc = "acc @ [(length acc, k)]"
    have m: "map fst ?acc = [0..<length ?acc]" using Cons.prems by simp
    have "fold chain_map_step (enumerate k (b # m)) acc = fold chain_map_step (enumerate (Suc k) m) ?acc"
      using True fresh by (simp add: chain_map_step_def update_fresh)
    also have "\<dots> = ?acc @ zip [length ?acc..<length ?acc + length (filter id m)] (map fst (filter snd (enumerate (Suc k) m)))"
      by (rule Cons.IH [OF m])
    also have "\<dots> = acc @ zip [length acc..<length acc + length (filter id (b # m))]
        (map fst (filter snd (enumerate k (b # m))))"
      using True by (simp add: upt_conv_Cons del: upt_Suc)
    finally show ?thesis .
  next
    case False
    then show ?thesis using Cons.IH [OF Cons.prems, of "Suc k"] by (simp add: chain_map_step_def)
  qed
qed

lemma positions_enumerate: "map fst (filter snd (enumerate 0 v)) = true_positions v"
proof (induction v rule: rev_induct)
  case Nil
  then show ?case by (simp add: true_positions_def)
next
  case (snoc x xs)
  have "filter (\<lambda>i. (xs @ [x]) ! i) [0..<length xs] = filter (\<lambda>i. xs ! i) [0..<length xs]"
    by (rule filter_cong) (auto simp: nth_append)
  then show ?case using snoc by (simp add: true_positions_def enumerate_append_eq)
qed

lemma compute_chain_map_zip:
  "compute_chain_map v = zip [0..<length (filter id v)] (true_positions v)"
  using chain_map_fold [of "[]" 0 v] by (simp add: compute_chain_map_def positions_enumerate)

lemma length_true_positions: "length (true_positions v) = length (filter id v)"
proof -
  have "length (map fst (filter snd (enumerate 0 v))) = length (filter id v)"
  proof (induction v rule: rev_induct)
    case Nil then show ?case by simp
  next
    case (snoc x xs) then show ?case by (simp add: enumerate_append_eq)
  qed
  then show ?thesis by (simp add: positions_enumerate)
qed

text \<open>
  Claim C6. The chain map is computed from the validity mask of the structure as loaded,
  before the invalid chains are removed; for every mask \<open>v\<close> it is defined exactly on
  \<open>0 ..< count v\<close>, sends \<open>i\<close> to the position of the \<open>i\<close>-th true entry of \<open>v\<close>
  (a position below \<open>length v\<close>), and is strictly increasing, hence injective.
\<close>

theorem chain_map_invariant:
  "dom (map_of (compute_chain_map v)) = {0..<length (filter id v)} \<and>
   (\<forall>i<length (filter id v).
      map_of (compute_chain_map v) i = Some (true_positions v ! i) \<and>
      true_positions v ! i < length v \<and> v ! (true_positions v ! i)) \<and>
   (\<forall>i j. i < j \<and> j < length (filter id v) \<longrightarrow>
      the (map_of (compute_chain_map v) i) < the (map_of (compute_chain_map v) j)) \<and>
   inj_on (map_of (compute_chain_map v)) {0..<length (filter id v)} \<and>
   process_record ev wr pred ranks (r, coord, pad_mask) w =
     (case load ev (data_dir wr @ [record_id r @ ''.npz'']) w of
        Raise e w1 \<Rightarrow> Raise e w1
      | Ok loaded w1 \<Rightarrow>
          for_each [0..<length coord]
            (process_candidate wr pred ranks (compute_chain_map (mask loaded)) r
               (fst (remove_invalid ev loaded w1)) coord (to_bool pad_mask))
            (snd (remove_invalid ev loaded w1)))"
proof -
  let ?n = "length (filter id v)"
  let ?cm = "map_of (compute_chain_map v)"
  have len: "length (true_positions v) = ?n" by (rule length_true_positions)
  have cm: "compute_chain_map v = zip [0..<?n] (true_positions v)" by (rule compute_chain_map_zip)
  have dom: "dom ?cm = {0..<?n}"
    unfolding cm using len by (simp add: dom_map_of_zip)
  have get: "?cm i = Some (true_positions v ! i)" if "i < ?n" for i
    unfolding cm using map_of_zip_nth [of "[0..<?n]" "true_positions v" i] len that by simp
  have mem: "true_positions v ! i < length v \<and> v ! (true_positions v ! i)" if "i < ?n" for i
  proof -
    have "true_positions v ! i \<in> set (true_positions v)" using that len by simp
    then show ?thesis by (simp add: true_positions_def)
  qed
  have sorted: "sorted_wrt (<) (true_positions v)"
    unfolding true_positions_def by (rule sorted_wrt_filter) simp
  have incr: "true_positions v ! i < true_positions v ! j" if "i < j" "j < ?n" for i j
    using sorted_wrt_nth_less [OF sorted, of i j] that len by simp
  have incr': "the (?cm i) < the (?cm j)" if "i < j" "j < ?n" for i j
    using incr [OF that] get [of i] get [of j] that by simp
  have inj: "inj_on ?cm {0..<?n}"
  proof (rule inj_onI)
    fix i j assume ij: "i \<in> {0..<?n}" "j \<in> {0..<?n}" "?cm i = ?cm j"
    show "i = j"
    proof (rule ccontr)
      assume "i \<noteq> j"
      then consider "i < j" | "j < i" by linarith
      then show False
        using incr' [of i j] incr' [of j i] ij by cases auto
    qed
  qed
  have pr: "process_record ev wr pred ranks (r, coord, pad_mask) w =
     (case load ev (data_dir wr @ [record_id r @ ''.npz'']) w of
        Raise e w1 \<Rightarrow> Raise e w1
      | Ok loaded w1 \<Rightarrow>
          for_each [0..<length coord]
            (process_candidate wr pred ranks (compute_chain_map (mask loaded)) r
               (fst (remove_invalid ev loaded w1)) coord (to_bool pad_mask))
            (snd (remove_invalid ev loaded w1)))"
    by (simp add: process_record_def Let_def split: res.splits)
  show ?thesis using dom get mem incr' inj pr by blast
qed

theorem chain_map_invariant_witness:
  "dom (map_of (compute_chain_map [True, False, True])) = {0..<2} \<and>
   map_of (compute_chain_map [True, False, True]) 0 = Some 0 \<and>
   map_of (compute_chain_map [True, False, True]) 1 = Some 2 \<and>
   true_positions [True, False, True] = [0, 2] \<and>
   length (filter id [True, False, True]) = 2"
proof -
  have n: "length (filter id [True, False, True]) = 2" by simp
  have tp: "true_positions [True, False, True] = [0, 2]" by (simp add: true_positions_def upt_rec)
  note inst = chain_map_invariant [of "[True, False, True]" ex_env ex_writer ex_pred "[]" ex_record "[]" "[]" w0]
  from inst have d: "dom (map_of (compute_chain_map [True, False, True])) = {0..<2}"
    unfolding n by blast
  from inst have g: "\<forall>i<2. map_of (compute_chain_map [True, False, True]) i = Some (true_positions [True, False, True] ! i)"
    unfolding n by blast
  from g have "map_of (compute_chain_map [True, False, True]) 0 = Some 0"
    and "map_of (compute_chain_map [True, False, True]) 1 = Some 2"
    unfolding tp by auto
  with d n tp show ?thesis by simp
qed

section \<open>The constructor and the failure counter\<close>

text \<open>
  Claim C9, as amended. Constructing the writer with a format that is neither \<^verbatim>\<open>pdb\<close>
  nor \<^verbatim>\<open>mmcif\<close> raises \<^verbatim>\<open>ValueError\<close> and touches nothing; a writer that was
  constructed has one of the two formats, and every structure file it writes is the text
  of \<^verbatim>\<open>to_pdb\<close> or \<^verbatim>\<open>to_mmcif\<close>, never an archive.
\<close>

theorem init_rejects_other_formats:
  "(fmt \<noteq> ''pdb'' \<and> fmt \<noteq> ''mmcif'' \<longrightarrow> init dd od fmt w = Raise ValueError w) \<and>
   (init dd od fmt w = Ok wr w' \<longrightarrow>
      (output_format wr = ''pdb'' \<or> output_format wr = ''mmcif'') \<and>
      (\<forall>pred ranks r st i w1 u w2.
         write_structure wr pred ranks r st i w1 = Ok u w2 \<longrightarrow>
         (\<exists>p s pl. trace w2 = trace w1 @ [Mkdir (struct_dir wr r), WriteFile p (PdbText s)] \<or>
                   trace w2 = trace w1 @ [Mkdir (struct_dir wr r), WriteFile p (MmcifText s pl)])))"
proof (intro conjI impI allI)
  assume "fmt \<noteq> ''pdb'' \<and> fmt \<noteq> ''mmcif''"
  then show "init dd od fmt w = Raise ValueError w" by (simp add: init_def)
next
  assume ok: "init dd od fmt w = Ok wr w'"
  then show fm: "output_format wr = ''pdb'' \<or> output_format wr = ''mmcif''"
    by (auto simp: init_def split: if_splits)
  fix pred ranks r st i w1 u w2
  assume ws: "write_structure wr pred ranks r st i w1 = Ok u w2"
  from fm ws show "\<exists>p s pl. trace w2 = trace w1 @ [Mkdir (struct_dir wr r), WriteFile p (PdbText s)] \<or>
                   trace w2 = trace w1 @ [Mkdir (struct_dir wr r), WriteFile p (MmcifText s pl)]"
    by (auto simp: write_structure_def Let_def emit_def split: sum.splits option.splits if_splits)
qed

text \<open>No format other than the two named ones gets through the constructor.\<close>

theorem no_third_format: 
  "\<not> (\<exists>fmt dd od w wr w'. fmt \<noteq> ''pdb'' \<and> fmt \<noteq> ''mmcif'' \<and> init dd od fmt w = Ok wr w')"
  by (auto simp: init_def)

theorem init_rejects_other_formats_witness:
  "init ''data'' ''out'' ''npz'' w0 = Raise ValueError w0 \<and>
   init ''data'' ''out'' ''mmcif'' w0 = Ok ex_writer (emit (Mkdir [''out'']) w0) \<and>
   output_format ex_writer = ''mmcif''"
proof -
  have a: "init ''data'' ''out'' ''npz'' w0 = Raise ValueError w0"
    using init_rejects_other_formats [of "''npz''" "''data''" "''out''" w0] by simp
  have b: "init ''data'' ''out'' ''mmcif'' w0 = Ok ex_writer (emit (Mkdir [''out'']) w0)"
    by (simp add: init_def ex_writer_def emit_def)
  from init_rejects_other_formats [of "''mmcif''" "''data''" "''out''" w0 ex_writer "emit (Mkdir [''out'']) w0"] b
  have "output_format ex_writer = ''pdb'' \<or> output_format ex_writer = ''mmcif''" by blast
  then have c: "output_format ex_writer = ''mmcif''" by (simp add: ex_writer_def)
  from a b c show ?thesis by simp
qed

text \<open>
  Claim C5. When the exception flag of the prediction is set, the call adds one to the
  failure counter, returns normally and leaves the world (the trace of file effects
  included) as it was; when the flag is not set, the counter keeps its value.
\<close>

theorem failed_batch_counted:
  "(exception pred = Some True \<longrightarrow>
      write_on_batch_end ev wr pred b w = (wr\<lparr>failed := failed wr + 1\<rparr>, Ok () w)) \<and>
   (exception pred = Some False \<longrightarrow>
      failed (fst (write_on_batch_end ev wr pred b w)) = failed wr)"
  by (simp add: write_on_batch_end_def)

theorem failed_batch_counted_witness:
  "write_on_batch_end ex_env ex_writer (ex_pred\<lparr>exception := Some True\<rparr>) ex_batch w0 =
     (ex_writer\<lparr>failed := 1\<rparr>, Ok () w0) \<and>
   failed (fst (write_on_batch_end ex_env ex_writer ex_pred ex_batch w0)) = 0"
proof -
  have a: "exception (ex_pred\<lparr>exception := Some True\<rparr>) = Some True" by simp
  have b: "exception ex_pred = Some False" by (simp add: ex_pred_def)
  from failed_batch_counted [of "ex_pred\<lparr>exception := Some True\<rparr>" ex_env ex_writer ex_batch w0] a
  have "write_on_batch_end ex_env ex_writer (ex_pred\<lparr>exception := Some True\<rparr>) ex_batch w0 =
     (ex_writer\<lparr>failed := failed ex_writer + 1\<rparr>, Ok () w0)" by blast
  moreover from failed_batch_counted [of ex_pred ex_env ex_writer ex_batch w0] b
  have "failed (fst (write_on_batch_end ex_env ex_writer ex_pred ex_batch w0)) = failed ex_writer" by blast
  ultimately show ?thesis by (simp add: ex_writer_def)
qed

section \<open>Unpadding and the shape of the atom table\<close>

lemma length_filter_zip_snd:
  "length xs = length m \<Longrightarrow> length (filter snd (zip xs m)) = length (filter id m)"
  by (induction xs m rule: list_induct2) auto

lemma length_mask_select:
  "mask_select xs m = Inr ys \<Longrightarrow> length ys = length (filter id m)"
  by (auto simp: mask_select_def length_filter_zip_snd split: if_splits)

lemma mask_select_cases:
  "mask_select xs m = Inl IndexError \<or> (\<exists>ys. mask_select xs m = Inr ys \<and> length ys = length (filter id m))"
  by (auto simp: mask_select_def length_filter_zip_snd)

lemma count_to_bool: "length (filter id (to_bool pm)) = length (filter (\<lambda>x. x \<noteq> 0) pm)"
  by (induction pm) (auto simp: to_bool_def)

lemma set_coords_mismatch:
  "length rows \<noteq> length tab \<Longrightarrow> length rows \<noteq> 1 \<Longrightarrow> set_coords tab rows = Inl ValueError"
  by (simp add: set_coords_def broadcast_rows_def)

lemma written_emit_Mkdir [simp]: "written (emit (Mkdir p) w) = written w"
  by (simp add: written_def emit_def)

lemma written_emit_WriteFile [simp]: "written (emit (WriteFile p c) w) = written w @ [(p, c)]"
  by (simp add: written_def emit_def)

lemma atoms_of_emit [simp]: "atoms_of (emit e w) a = atoms_of w a"
  by (simp add: atoms_of_def emit_def)

lemma residues_of_emit [simp]: "residues_of (emit e w) a = residues_of w a"
  by (simp add: residues_of_def emit_def)

lemma final_structure_mismatch:
  assumes "length (filter id pad) \<noteq> length (atoms_of w (atoms st))"
    and "length (filter id pad) \<noteq> 1"
  shows "\<exists>e. final_structure cm r st coord pad i w = Raise e w \<and> (e = ValueError \<or> e = IndexError)"
proof (cases "getitem coord i")
  case (Inl e)
  then show ?thesis by (auto simp: final_structure_def getitem_def split: if_splits)
next
  case (Inr mc)
  from mask_select_cases [of mc pad] show ?thesis
  proof
    assume "mask_select mc pad = Inl IndexError"
    with Inr show ?thesis by (simp add: final_structure_def)
  next
    assume "\<exists>ys. mask_select mc pad = Inr ys \<and> length ys = length (filter id pad)"
    then obtain ys where ys: "mask_select mc pad = Inr ys" "length ys = length (filter id pad)" by blast
    with assms have "set_coords (atoms_of w (atoms st)) ys = Inl ValueError"
      by (simp add: set_coords_mismatch)
    with Inr ys show ?thesis by (simp add: final_structure_def assemble_final_def)
  qed
qed

lemma intermediate_step_mismatch:
  assumes "length (filter id pad) \<noteq> length (atoms_of w (atoms st))"
    and "length (filter id pad) \<noteq> 1"
  shows "\<exists>e w'. intermediate_step wr ranks r st pad i sc w = Raise e w' \<and>
           (e = ValueError \<or> e = IndexError) \<and> written w' = written w"
proof (cases "getitem (snd sc) i")
  case (Inl e)
  then show ?thesis by (auto simp: intermediate_step_def getitem_def split: if_splits)
next
  case (Inr mc)
  from mask_select_cases [of mc pad] show ?thesis
  proof
    assume "mask_select mc pad = Inl IndexError"
    with Inr show ?thesis by (simp add: intermediate_step_def)
  next
    assume "\<exists>ys. mask_select mc pad = Inr ys \<and> length ys = length (filter id pad)"
    then obtain ys where ys: "mask_select mc pad = Inr ys" "length ys = length (filter id pad)" by blast
    with assms have "set_coords (atoms_of w (atoms st)) ys = Inl ValueError"
      by (simp add: set_coords_mismatch)
    with Inr ys show ?thesis
      by (simp add: intermediate_step_def assemble_intermediate_def Let_def atoms_of_def written_def)
  qed
qed

lemma intermediate_steps_mismatch:
  assumes "length (filter id pad) \<noteq> length (atoms_of w (atoms st))"
    and "length (filter id pad) \<noteq> 1"
  shows "(\<exists>e w'. intermediate_steps wr pred ranks r st pad i w = Raise e w' \<and>
            (e = ValueError \<or> e = IndexError) \<and> written w' = written w) \<or>
         (\<exists>w'. intermediate_steps wr pred ranks r st pad i w = Ok () w' \<and> written w' = written w \<and>
            atoms_of w' (atoms st) = atoms_of w (atoms st))"
proof (cases "intermediate_coords pred")
  case None
  then show ?thesis by (simp add: intermediate_steps_def)
next
  case (Some steps)
  show ?thesis
  proof (cases steps)
    case Nil
    with Some show ?thesis by (simp add: intermediate_steps_def)
  next
    case (Cons s ss)
    let ?w = "emit (Mkdir (intermediate_dir wr r)) w"
    from assms have "length (filter id pad) \<noteq> length (atoms_of ?w (atoms st))" by simp
    from intermediate_step_mismatch [OF this assms(2), of wr ranks r i "(0, s)"]
    obtain e w' where "intermediate_step wr ranks r st pad i (0, s) ?w = Raise e w'"
      "e = ValueError \<or> e = IndexError" "written w' = written ?w" by blast
    with Some Cons show ?thesis by (auto simp: intermediate_steps_def)
  qed
qed

lemma process_candidate_mismatch:
  assumes "length (filter id pad) \<noteq> length (atoms_of w (atoms st))"
    and "length (filter id pad) \<noteq> 1"
  shows "\<exists>e w'. process_candidate wr pred ranks cm r st coord pad i w = Raise e w' \<and>
            (e = ValueError \<or> e = IndexError) \<and> written w' = written w"
  using intermediate_steps_mismatch [OF assms, of wr pred ranks r i]
proof
  assume "\<exists>e w'. intermediate_steps wr pred ranks r st pad i w = Raise e w' \<and>
            (e = ValueError \<or> e = IndexError) \<and> written w' = written w"
  then show ?thesis by (auto simp: process_candidate_def and_then_def)
next
  assume "\<exists>w'. intermediate_steps wr pred ranks r st pad i w = Ok () w' \<and> written w' = written w \<and>
            atoms_of w' (atoms st) = atoms_of w (atoms st)"
  then obtain w1 where w1: "intermediate_steps wr pred ranks r st pad i w = Ok () w1"
    "written w1 = written w" "atoms_of w1 (atoms st) = atoms_of w (atoms st)" by blast
  from assms w1 have "length (filter id pad) \<noteq> length (atoms_of w1 (atoms st))" by simp
  from final_structure_mismatch [OF this assms(2), of cm r coord i]
  obtain e where "final_structure cm r st coord pad i w1 = Raise e w1" "e = ValueError \<or> e = IndexError"
    by blast
  with w1 show ?thesis by (auto simp: process_candidate_def and_then_def)
qed

lemma read_new_structure [simp]:
  "read_structure (snd (new_structure s w)) (fst (new_structure s w)) = s"
  by (simp add: new_structure_def read_structure_def atoms_of_def residues_of_def)

lemma atoms_of_new_structure [simp]:
  "atoms_of (snd (new_structure s w)) (atoms (fst (new_structure s w))) = snap_atoms s"
  by (simp add: new_structure_def atoms_of_def)

lemma written_new_structure [simp]: "written (snd (new_structure s w)) = written w"
  by (simp add: new_structure_def written_def)

text \<open>
  Claim C4, as amended. For a record with at least one candidate whose base structure
  loads: when the number of true entries of the mask differs from the number of atom rows
  of the filtered structure and is not 1, processing the record raises a shape error
  (\<^verbatim>\<open>ValueError\<close> from the assignment to \<^verbatim>\<open>atoms["coords"]\<close>, or \<^verbatim>\<open>IndexError\<close> when the
  mask does not fit the coordinate rows) and no file is written for it.
\<close>

theorem shape_mismatch_is_fatal:
  assumes "disk ev (data_dir wr @ [record_id r @ ''.npz'']) = Some s"
    and "coord \<noteq> []"
    and "length (filter (\<lambda>x. x \<noteq> 0) pad_mask) \<noteq> length (snap_atoms (remove_invalid_chains ev s))"
    and "length (filter (\<lambda>x. x \<noteq> 0) pad_mask) \<noteq> 1"
  shows "\<exists>e w'. process_record ev wr pred ranks (r, coord, pad_mask) w = Raise e w' \<and>
           (e = ValueError \<or> e = IndexError) \<and> written w' = written w"
proof -
  let ?loaded = "fst (new_structure s w)"
  let ?w1 = "snd (new_structure s w)"
  let ?st = "fst (remove_invalid ev ?loaded ?w1)"
  let ?w2 = "snd (remove_invalid ev ?loaded ?w1)"
  let ?pad = "to_bool pad_mask"
  let ?cm = "compute_chain_map (mask ?loaded)"
  have ld: "load ev (data_dir wr @ [record_id r @ ''.npz'']) w = Ok ?loaded ?w1"
    using assms(1) by (simp add: load_def)
  have at: "atoms_of ?w2 (atoms ?st) = snap_atoms (remove_invalid_chains ev s)"
    by (simp add: remove_invalid_def)
  have wr2: "written ?w2 = written w" by (simp add: remove_invalid_def)
  have a: "length (filter id ?pad) \<noteq> length (atoms_of ?w2 (atoms ?st))"
    using assms(3) by (simp add: at count_to_bool)
  have b: "length (filter id ?pad) \<noteq> 1" using assms(4) by (simp add: count_to_bool)
  from process_candidate_mismatch [OF a b, of wr pred ranks ?cm r coord 0]
  obtain e w' where c: "process_candidate wr pred ranks ?cm r ?st coord ?pad 0 ?w2 = Raise e w'"
    "e = ValueError \<or> e = IndexError" "written w' = written ?w2" by blast
  have up: "[0..<length coord] = 0 # [1..<length coord]"
    using assms(2) by (simp add: upt_conv_Cons)
  have "process_record ev wr pred ranks (r, coord, pad_mask) w = Raise e w'"
    using ld c(1) by (simp add: process_record_def Let_def up)
  with c wr2 show ?thesis by auto
qed

text \<open>
  A mask with exactly one true entry is not rejected: numpy broadcasts the single row, so
  all three atoms of the record get the same coordinates and both candidates are written.
\<close>

theorem single_row_is_broadcast:
  "length (filter (\<lambda>x. x \<noteq> 0) [1, 0, 0, 0 :: scalar]) = 1 \<and>
   length (snap_atoms (remove_invalid_chains ex_env ex_snapshot)) = 3 \<and>
   raised (process_record ex_env ex_writer ex_pred (idx_to_rank [1, 0])
             (ex_record, ex_coords, [1, 0, 0, 0]) w0) = None \<and>
   written (world_of (process_record ex_env ex_writer ex_pred (idx_to_rank [1, 0])
             (ex_record, ex_coords, [1, 0, 0, 0]) w0)) =
     [([''out'', ''r1'', ''r1_model_1.cif''],
       MmcifText \<lparr>snap_atoms = replicate 3 \<lparr>coords = (1, 1, 1), is_present = True\<rparr>,
                  snap_residues = [\<lparr>res_is_present = True\<rparr>], snap_chains = [\<lparr>asym_id = 0\<rparr>],
                  snap_mask = [False, True], snap_interfaces = []\<rparr> None),
      ([''out'', ''r1'', ''r1_model_0.cif''],
       MmcifText \<lparr>snap_atoms = replicate 3 \<lparr>coords = (4, 4, 4), is_present = True\<rparr>,
                  snap_residues = [\<lparr>res_is_present = True\<rparr>], snap_chains = [\<lparr>asym_id = 0\<rparr>],
                  snap_mask = [False, True], snap_interfaces = []\<rparr> None)]"
  by code_simp

theorem shape_mismatch_is_fatal_witness:
  "disk ex_env (data_dir ex_writer @ [record_id ex_record @ ''.npz'']) = Some ex_snapshot \<and>
   ex_coords \<noteq> [] \<and>
   length (filter (\<lambda>x. x \<noteq> 0) [1, 1, 0, 0 :: scalar]) = 2 \<and>
   length (snap_atoms (remove_invalid_chains ex_env ex_snapshot)) = 3 \<and>
   (\<exists>e w'. process_record ex_env ex_writer ex_pred (idx_to_rank [1, 0])
              (ex_record, ex_coords, [1, 1, 0, 0]) w0 = Raise e w' \<and>
            (e = ValueError \<or> e = IndexError) \<and> written w' = written w0)"
proof -
  have a: "disk ex_env (data_dir ex_writer @ [record_id ex_record @ ''.npz'']) = Some ex_snapshot"
    by (simp add: ex_env_def ex_writer_def ex_record_def ex_disk_def)
  have b: "ex_coords \<noteq> []" by (simp add: ex_coords_def)
  have c: "length (filter (\<lambda>x. x \<noteq> 0) [1, 1, 0, 0 :: scalar]) = 2" by simp
  have d: "length (snap_atoms (remove_invalid_chains ex_env ex_snapshot)) = 3"
    by (simp add: ex_env_def ex_remove_def ex_snapshot_def)
  have "\<exists>e w'. process_record ex_env ex_writer ex_pred (idx_to_rank [1, 0])
              (ex_record, ex_coords, [1, 1, 0, 0]) w0 = Raise e w' \<and>
            (e = ValueError \<or> e = IndexError) \<and> written w' = written w0"
    by (rule shape_mismatch_is_fatal [OF a b]) (simp_all add: c d)
  with a b c d show ?thesis by blast
qed

section \<open>The base structure under assembly\<close>

text \<open>
  An intermediate step works on a copy of the atom table and leaves the tables of the base
  as they were; the final assembly returns a structure over the tables of the base and
  writes the coordinates and flags into them.
\<close>

lemma assemble_intermediate_keeps_base:
  assumes "assemble_intermediate st c w = Ok new_st w'" and "atoms st < next_ref w"
  shows "atoms_of w' (atoms st) = atoms_of w (atoms st) \<and>
         residues_of w' (residues st) = residues_of w (residues st) \<and>
         atoms new_st \<noteq> atoms st"
  using assms
  by (auto simp: assemble_intermediate_def Let_def atoms_of_def residues_of_def split: sum.splits)

lemma assemble_final_shares_tables:
  assumes "assemble_final st c w = Ok new_st w'"
  shows "atoms new_st = atoms st \<and> residues new_st = residues st \<and>
         (\<exists>tab. set_coords (atoms_of w (atoms st)) c = Inr tab \<and>
                atoms_of w' (atoms st) = set_present tab) \<and>
         residues_of w' (residues st) = set_res_present (residues_of w (residues st))"
  using assms
  by (auto simp: assemble_final_def atoms_of_def residues_of_def split: sum.splits)

text \<open>
  Claim C1 fails on the code. Assembling the final structure of a candidate writes the
  tables of the base structure itself: after one call on a base of one absent atom at the
  origin, the base reads the candidate's coordinates and flags; after a second call with
  other coordinates, the structure the first call returned reads the second coordinates.
\<close>

theorem assemble_final_overwrites_base:
  "read_structure base_world base_st = base_snapshot \<and>
   raised (assemble_final base_st [(1, 1, 1)] base_world) = None \<and>
   read_structure (world_of (assemble_final base_st [(1, 1, 1)] base_world)) base_st =
     base_snapshot\<lparr>snap_atoms := [\<lparr>coords = (1, 1, 1), is_present = True\<rparr>],
                   snap_residues := [\<lparr>res_is_present = True\<rparr>]\<rparr> \<and>
   map_option (\<lambda>s. snap_atoms (read_structure (world_of (assemble_final base_st [(1, 1, 1)] base_world)) s))
       (value_of (assemble_final base_st [(1, 1, 1)] base_world)) =
     Some [\<lparr>coords = (1, 1, 1), is_present = True\<rparr>] \<and>
   map_option (\<lambda>s. snap_atoms (read_structure
         (world_of (assemble_final base_st [(2, 2, 2)]
            (world_of (assemble_final base_st [(1, 1, 1)] base_world)))) s))
       (value_of (assemble_final base_st [(1, 1, 1)] base_world)) =
     Some [\<lparr>coords = (2, 2, 2), is_present = True\<rparr>]"
  by (simp add: base_st_def base_world_def base_snapshot_def w0_def new_structure_def
      assemble_final_def set_coords_def broadcast_rows_def set_present_def set_res_present_def
      read_structure_def atoms_of_def residues_of_def world_of_def raised_def value_of_def)

section \<open>The confidence summary\<close>

lemma collect_map: "(\<And>x. x \<in> set xs \<Longrightarrow> f (h x) = Inr (g x)) \<Longrightarrow> collect f (map h xs) = Inr (map g xs)"
  by (induction xs) auto

lemma collect_Inl: "collect f xs = Inl e \<Longrightarrow> \<exists>x\<in>set xs. f x = Inl e"
  by (induction xs) (auto split: sum.splits)

lemma collect_Inr: "collect f xs = Inr ys \<Longrightarrow> x \<in> set xs \<Longrightarrow> \<exists>y. f x = Inr y"
  by (induction xs arbitrary: ys) (auto split: sum.splits)

lemma dict_get_distinct: "distinct (map fst d) \<Longrightarrow> (k, v) \<in> set d \<Longrightarrow> dict_get d k = Inr v"
  by (simp add: dict_get_def)

lemma confidence_summary_expected:
  assumes sc: "\<And>k. k \<in> set scalar_keys \<Longrightarrow> \<exists>t. scalar_fields pred k = Some t \<and> i < length t"
    and pc: "pair_chains_iptm pred = Some pc"
    and d1: "distinct (map fst pc)"
    and d2: "\<And>k row. (k, row) \<in> set pc \<Longrightarrow> distinct (map fst row)"
    and diag: "\<And>k row. (k, row) \<in> set pc \<Longrightarrow> \<exists>t. map_of row k = Some t \<and> i < length t"
    and len: "\<And>k row k2 t. (k, row) \<in> set pc \<Longrightarrow> (k2, t) \<in> set row \<Longrightarrow> i < length t"
  shows "confidence_summary pred i = Inr (expected_summary pred pc i)"
proof -
  have s: "collect (scalar_entry pred i) scalar_keys =
      Inr (map (\<lambda>k. (KStr k, PFloat (the (scalar_fields pred k) ! i))) scalar_keys)"
    using collect_map [of scalar_keys "scalar_entry pred i" "\<lambda>k. k"
        "\<lambda>k. (KStr k, PFloat (the (scalar_fields pred k) ! i))"] sc
    by (fastforce simp: scalar_entry_def getitem_def)
  have c: "chains_ptm pc i = Inr (map (\<lambda>(k, row). (KInt k, PFloat (the (map_of row k) ! i))) pc)"
    unfolding chains_ptm_def
  proof (rule collect_map)
    fix x assume x: "x \<in> set pc"
    obtain k row where kr: "x = (k, row)" by (cases x)
    from diag [of k row] x kr obtain t where t: "map_of row k = Some t" "i < length t" by blast
    from dict_get_distinct [OF d1, of k row] x kr have "dict_get pc k = Inr row" by simp
    with t kr show "pair_entry pc i (fst x) (fst x) = Inr (case x of (k, row) \<Rightarrow> (KInt k, PFloat (the (map_of row k) ! i)))"
      by (simp add: pair_entry_def pair_value_def dict_get_def getitem_def)
  qed
  have p: "collect (pair_row pc i) (map fst pc) =
      Inr (map (\<lambda>(k1, row). (KInt k1, PDict (map (\<lambda>(k2, t). (KInt k2, PFloat (t ! i))) row))) pc)"
  proof (rule collect_map)
    fix x assume x: "x \<in> set pc"
    obtain k row where kr: "x = (k, row)" by (cases x)
    from dict_get_distinct [OF d1, of k row] x kr have g: "dict_get pc k = Inr row" by simp
    have "collect (pair_entry pc i k) (map fst row) = Inr (map (\<lambda>(k2, t). (KInt k2, PFloat (t ! i))) row)"
    proof (rule collect_map)
      fix y assume y: "y \<in> set row"
      obtain k2 t where kt: "y = (k2, t)" by (cases y)
      from d2 [of k row] x kr have "distinct (map fst row)" by simp
      from dict_get_distinct [OF this, of k2 t] y kt have "dict_get row k2 = Inr t" by simp
      moreover from len [of k row k2 t] x kr y kt have "i < length t" by simp
      ultimately show "pair_entry pc i k (fst y) = Inr (case y of (k2, t) \<Rightarrow> (KInt k2, PFloat (t ! i)))"
        using g kt by (simp add: pair_entry_def pair_value_def getitem_def)
    qed
    with g kr show "pair_row pc i (fst x) =
        Inr (case x of (k1, row) \<Rightarrow> (KInt k1, PDict (map (\<lambda>(k2, t). (KInt k2, PFloat (t ! i))) row)))"
      by (simp add: pair_row_def)
  qed
  show ?thesis by (simp add: confidence_summary_def s pc c p expected_summary_def)
qed

lemma map_of_KStr: "k \<in> set ks \<Longrightarrow> map_of (map (\<lambda>k. (KStr k, f k)) ks) (KStr k) = Some (f k)"
  by (induction ks) auto

lemma map_of_KStr_None: "k \<notin> set ks \<Longrightarrow> map_of (map (\<lambda>k. (KStr k, f k)) ks) (KStr k) = None"
  by (induction ks) auto

lemma map_of_KInt:
  assumes "distinct (map fst d)" and "(k, v) \<in> set d"
  shows "map_of (map (\<lambda>(k, v). (KInt k, g k v)) d) (KInt k) = Some (g k v)"
proof (rule map_of_is_SomeI)
  have "map fst (map (\<lambda>(k, v). (KInt k, g k v)) d) = map KInt (map fst d)"
    by (induction d) auto
  then show "distinct (map fst (map (\<lambda>(k, v). (KInt k, g k v)) d))"
    using assms(1) by (simp add: distinct_map inj_on_def)
  show "(KInt k, g k v) \<in> set (map (\<lambda>(k, v). (KInt k, g k v)) d)"
    using assms(2) by force
qed

lemma summary_scalar:
  "k \<in> set scalar_keys \<Longrightarrow>
   py_path (expected_summary pred pc i) [KStr k] = Some (PFloat (the (scalar_fields pred k) ! i))"
  by (simp add: expected_summary_def map_of_KStr)

lemma summary_diagonal:
  assumes "distinct (map fst pc)" and "(k, row) \<in> set pc" and "distinct (map fst row)"
    and "map_of row k = Some t"
  shows "py_path (expected_summary pred pc i) [KStr ''chains_ptm'', KInt k] = Some (PFloat (t ! i))"
    and "py_path (expected_summary pred pc i) [KStr ''pair_chains_iptm'', KInt k, KInt k] = Some (PFloat (t ! i))"
proof -
  have n1: "''chains_ptm'' \<notin> set scalar_keys" and n2: "''pair_chains_iptm'' \<notin> set scalar_keys"
    by (simp_all add: scalar_keys_def)
  have kt: "(k, t) \<in> set row" using assms(4) by (rule map_of_SomeD)
  have a: "map_of (map (\<lambda>(k, row). (KInt k, PFloat (the (map_of row k) ! i))) pc) (KInt k)
      = Some (PFloat (the (map_of row k) ! i))"
    by (rule map_of_KInt [OF assms(1,2)])
  have b: "map_of (map (\<lambda>(k1, row). (KInt k1, PDict (map (\<lambda>(k2, t). (KInt k2, PFloat (t ! i))) row))) pc) (KInt k)
      = Some (PDict (map (\<lambda>(k2, t). (KInt k2, PFloat (t ! i))) row))"
    by (rule map_of_KInt [OF assms(1,2)])
  have c: "map_of (map (\<lambda>(k2, t). (KInt k2, PFloat (t ! i))) row) (KInt k) = Some (PFloat (t ! i))"
    by (rule map_of_KInt [OF assms(3) kt])
  show "py_path (expected_summary pred pc i) [KStr ''chains_ptm'', KInt k] = Some (PFloat (t ! i))"
    using a assms(4) by (simp add: expected_summary_def map_of_KStr_None [OF n1] map_add_def)
  show "py_path (expected_summary pred pc i) [KStr ''pair_chains_iptm'', KInt k, KInt k] = Some (PFloat (t ! i))"
    using b c by (simp add: expected_summary_def map_of_KStr_None [OF n2] map_add_def)
qed

lemma scalar_entry_error: "scalar_entry pred i k = Inl e \<Longrightarrow> e = KeyError \<or> e = IndexError"
  by (auto simp: scalar_entry_def getitem_def split: option.splits if_splits)

lemma confidence_summary_missing:
  assumes "(\<exists>k\<in>set scalar_keys. scalar_fields pred k = None) \<or> pair_chains_iptm pred = None"
  shows "\<exists>e. confidence_summary pred i = Inl e \<and> (e = KeyError \<or> e = IndexError)"
proof (cases "collect (scalar_entry pred i) scalar_keys")
  case (Inl e)
  from collect_Inl [OF Inl] scalar_entry_error have "e = KeyError \<or> e = IndexError" by blast
  with Inl show ?thesis by (simp add: confidence_summary_def)
next
  case (Inr ys)
  have "\<not> (\<exists>k\<in>set scalar_keys. scalar_fields pred k = None)"
  proof
    assume "\<exists>k\<in>set scalar_keys. scalar_fields pred k = None"
    then obtain k where k: "k \<in> set scalar_keys" "scalar_fields pred k = None" by blast
    from collect_Inr [OF Inr k(1)] k(2) show False by (simp add: scalar_entry_def)
  qed
  with assms have "pair_chains_iptm pred = None" by blast
  with Inr show ?thesis by (simp add: confidence_summary_def)
qed

lemma write_confidence_missing:
  assumes "plddt pred \<noteq> None"
    and "(\<exists>k\<in>set scalar_keys. scalar_fields pred k = None) \<or> pair_chains_iptm pred = None"
  shows "\<exists>e. write_confidence wr pred ranks r i w = Raise e w \<and> (e = KeyError \<or> e = IndexError)"
proof -
  from confidence_summary_missing [OF assms(2), of i]
  obtain e where "confidence_summary pred i = Inl e" "e = KeyError \<or> e = IndexError" by blast
  with assms(1) show ?thesis
    by (auto simp: write_confidence_def dict_get_def split: option.splits sum.splits)
qed

lemma write_structure_Ok_trace:
  "write_structure wr pred ranks r ns i w = Ok u w' \<Longrightarrow>
   \<exists>p c. trace w' = trace w @ [Mkdir (struct_dir wr r), WriteFile p c]"
  by (auto simp: write_structure_def Let_def emit_def split: sum.splits option.splits if_splits)

text \<open>
  Claim C10, as amended. With \<^verbatim>\<open>plddt\<close> in the prediction: a missing
  \<^verbatim>\<open>confidence_score\<close> raises \<^verbatim>\<open>KeyError\<close> at the ranking (line 74), before any record is
  loaded or any file written; a missing one of the other scalar keys or a missing
  \<^verbatim>\<open>pair_chains_iptm\<close> makes the processing of the record raise a lookup error
  (\<^verbatim>\<open>KeyError\<close>, or \<^verbatim>\<open>IndexError\<close> from a field read before the missing one) in its
  first candidate, right after that candidate's structure file has been written.
\<close>

theorem missing_confidence_key_aborts:
  "(exception pred = Some False \<and> scalar_fields pred ''confidence_score'' = None \<longrightarrow>
      snd (write_on_batch_end ev wr pred b w) = Raise KeyError w) \<and>
   (plddt pred \<noteq> None \<and>
    ((\<exists>k\<in>set scalar_keys. scalar_fields pred k = None) \<or> pair_chains_iptm pred = None) \<and>
    load ev (data_dir wr @ [record_id r @ ''.npz'']) w = Ok loaded w1 \<and>
    remove_invalid ev loaded w1 = (st, w2) \<and>
    coord \<noteq> [] \<and>
    intermediate_steps wr pred ranks r st (to_bool pad_mask) 0 w2 = Ok () wa \<and>
    final_structure (compute_chain_map (mask loaded)) r st coord (to_bool pad_mask) 0 wa = Ok ns wb \<and>
    write_structure wr pred ranks r ns 0 wb = Ok () wc \<longrightarrow>
      (\<exists>e. process_record ev wr pred ranks (r, coord, pad_mask) w = Raise e wc \<and>
           (e = KeyError \<or> e = IndexError)) \<and>
      (\<exists>p c. trace wc = trace wb @ [Mkdir (struct_dir wr r), WriteFile p c]))"
proof (intro conjI impI)
  assume "exception pred = Some False \<and> scalar_fields pred ''confidence_score'' = None"
  then show "snd (write_on_batch_end ev wr pred b w) = Raise KeyError w"
    by (simp add: write_on_batch_end_def batch_body_def split: option.splits)
next
  assume h: "plddt pred \<noteq> None \<and>
    ((\<exists>k\<in>set scalar_keys. scalar_fields pred k = None) \<or> pair_chains_iptm pred = None) \<and>
    load ev (data_dir wr @ [record_id r @ ''.npz'']) w = Ok loaded w1 \<and>
    remove_invalid ev loaded w1 = (st, w2) \<and>
    coord \<noteq> [] \<and>
    intermediate_steps wr pred ranks r st (to_bool pad_mask) 0 w2 = Ok () wa \<and>
    final_structure (compute_chain_map (mask loaded)) r st coord (to_bool pad_mask) 0 wa = Ok ns wb \<and>
    write_structure wr pred ranks r ns 0 wb = Ok () wc"
  then show "\<exists>p c. trace wc = trace wb @ [Mkdir (struct_dir wr r), WriteFile p c]"
    using write_structure_Ok_trace by blast
  from h write_confidence_missing [of pred wr ranks r 0 wc]
  obtain e where e: "write_confidence wr pred ranks r 0 wc = Raise e wc" "e = KeyError \<or> e = IndexError"
    by blast
  have up: "[0..<length coord] = 0 # [1..<length coord]"
    using h by (simp add: upt_conv_Cons)
  have "process_candidate wr pred ranks (compute_chain_map (mask loaded)) r st coord (to_bool pad_mask) 0 w2
      = Raise e wc"
    using h e(1) by (simp add: process_candidate_def and_then_def)
  with h have "process_record ev wr pred ranks (r, coord, pad_mask) w = Raise e wc"
    by (simp add: process_record_def Let_def up)
  with e(2) show "\<exists>e. process_record ev wr pred ranks (r, coord, pad_mask) w = Raise e wc \<and>
           (e = KeyError \<or> e = IndexError)" by blast
qed

text \<open>
  Without \<^verbatim>\<open>confidence_score\<close> the call raises before it has written anything, the
  structure file included.
\<close>

theorem missing_score_raises_before_any_file:
  "plddt (plddt_pred\<lparr>scalar_fields := Map.empty\<rparr>) = Some ex_plddt \<and>
   scalar_fields (plddt_pred\<lparr>scalar_fields := Map.empty\<rparr>) ''confidence_score'' = None \<and>
   raised (snd (write_on_batch_end ex_env ex_writer (plddt_pred\<lparr>scalar_fields := Map.empty\<rparr>) ex_batch w0)) =
     Some KeyError \<and>
   trace (world_of (snd (write_on_batch_end ex_env ex_writer (plddt_pred\<lparr>scalar_fields := Map.empty\<rparr>) ex_batch w0))) = []"
  by (simp add: plddt_pred_def conf_pred_def ex_pred_def write_on_batch_end_def batch_body_def
      ex_batch_def raised_def world_of_def w0_def)

lemma res_is_Ok: "raised r = None \<Longrightarrow> r = Ok (the (value_of r)) (world_of r)"
  by (cases r) (simp_all add: raised_def value_of_def world_of_def)

theorem missing_confidence_key_aborts_witness:
  "exception (plddt_pred\<lparr>scalar_fields := Map.empty\<rparr>) = Some False \<and>
   snd (write_on_batch_end ex_env ex_writer (plddt_pred\<lparr>scalar_fields := Map.empty\<rparr>) ex_batch w0) =
     Raise KeyError w0 \<and>
   plddt (plddt_pred\<lparr>scalar_fields := ex_scalars\<rparr>) = Some ex_plddt \<and>
   scalar_fields (plddt_pred\<lparr>scalar_fields := ex_scalars\<rparr>) ''ptm'' = None \<and>
   (\<exists>e w'. process_record ex_env ex_writer (plddt_pred\<lparr>scalar_fields := ex_scalars\<rparr>) (idx_to_rank [1, 0])
              (ex_record, ex_coords, [1, 1, 0, 1]) w0 = Raise e w' \<and>
            (e = KeyError \<or> e = IndexError) \<and>
            (\<exists>p c evs. trace w' = evs @ [WriteFile p c]))"
proof -
  let ?Q = "plddt_pred\<lparr>scalar_fields := Map.empty\<rparr>"
  let ?P = "plddt_pred\<lparr>scalar_fields := ex_scalars\<rparr>"
  let ?ranks = "idx_to_rank [1, 0]"
  let ?loaded = "fst (new_structure ex_snapshot w0)"
  let ?w1 = "snd (new_structure ex_snapshot w0)"
  let ?st = "fst (remove_invalid ex_env ?loaded ?w1)"
  let ?w2 = "snd (remove_invalid ex_env ?loaded ?w1)"
  let ?pad = "to_bool [1, 1, 0, 1]"
  let ?fin = "final_structure (compute_chain_map (mask ?loaded)) ex_record ?st ex_coords ?pad 0 ?w2"
  let ?ns = "the (value_of ?fin)"
  let ?wb = "world_of ?fin"
  let ?ws = "write_structure ex_writer ?P ?ranks ex_record ?ns 0 ?wb"
  let ?wc = "world_of ?ws"
  have e0: "exception ?Q = Some False" by (simp add: plddt_pred_def conf_pred_def ex_pred_def)
  have s0: "scalar_fields ?Q ''confidence_score'' = None" by simp
  from missing_confidence_key_aborts [of ?Q ex_env ex_writer ex_batch w0] e0 s0
  have A: "snd (write_on_batch_end ex_env ex_writer ?Q ex_batch w0) = Raise KeyError w0" by blast
  have h1: "plddt ?P \<noteq> None" and h1': "plddt ?P = Some ex_plddt"
    by (simp_all add: plddt_pred_def)
  have ptm: "scalar_fields ?P ''ptm'' = None" by (simp add: ex_scalars_def)
  have h2: "(\<exists>k\<in>set scalar_keys. scalar_fields ?P k = None) \<or> pair_chains_iptm ?P = None"
    using ptm by (auto simp: scalar_keys_def)
  have h3: "load ex_env (data_dir ex_writer @ [record_id ex_record @ ''.npz'']) w0 = Ok ?loaded ?w1"
    by (simp add: load_def ex_env_def ex_writer_def ex_record_def ex_disk_def)
  have h4: "remove_invalid ex_env ?loaded ?w1 = (?st, ?w2)" by simp
  have h5: "ex_coords \<noteq> []" by (simp add: ex_coords_def)
  have h6: "intermediate_steps ex_writer ?P ?ranks ex_record ?st ?pad 0 ?w2 = Ok () ?w2"
    by (simp add: intermediate_steps_def plddt_pred_def conf_pred_def ex_pred_def)
  have "raised ?fin = None" by code_simp
  then have h7: "?fin = Ok ?ns ?wb" by (rule res_is_Ok)
  have "raised ?ws = None" by code_simp
  then have h8: "?ws = Ok () ?wc" using res_is_Ok [of ?ws] by simp
  from missing_confidence_key_aborts [of ?P ex_env ex_writer ex_batch w0 ex_record ?loaded ?w1 ?st ?w2
      ex_coords ?ranks "[1, 1, 0, 1]" ?w2 ?ns ?wb ?wc] h1 h2 h3 h4 h5 h6 h7 h8
  have B: "(\<exists>e. process_record ex_env ex_writer ?P ?ranks (ex_record, ex_coords, [1, 1, 0, 1]) w0 = Raise e ?wc \<and>
           (e = KeyError \<or> e = IndexError)) \<and>
      (\<exists>p c. trace ?wc = trace ?wb @ [Mkdir (struct_dir ex_writer ex_record), WriteFile p c])"
    by blast
  then have "\<exists>e w'. process_record ex_env ex_writer ?P ?ranks (ex_record, ex_coords, [1, 1, 0, 1]) w0 = Raise e w' \<and>
            (e = KeyError \<or> e = IndexError) \<and> (\<exists>p c evs. trace w' = evs @ [WriteFile p c])"
    by (metis append.assoc append_Cons append_Nil)
  with e0 A h1' ptm show ?thesis by blast
qed

section \<open>File names\<close>

text \<open>
  Claim C8 fails on the code. With the format \<^verbatim>\<open>mmcif\<close> and one refinement step, the
  final structures are written with the suffix \<^verbatim>\<open>cif\<close>, and the intermediate ones, under
  \<^verbatim>\<open>intermediate/\<close>, with the suffix \<^verbatim>\<open>mmcif\<close>: line 118 appends the format name itself.
  Both carry the rank of the candidate (candidate 0 has rank 1 here).
\<close>

theorem intermediate_suffix_is_format_name:
  "output_format ex_writer = ''mmcif'' \<and>
   raised (snd (write_on_batch_end ex_env ex_writer (ex_pred\<lparr>intermediate_coords := Some [ex_coords]\<rparr>)
             ex_batch w0)) = None \<and>
   map fst (written (world_of (snd (write_on_batch_end ex_env ex_writer
             (ex_pred\<lparr>intermediate_coords := Some [ex_coords]\<rparr>) ex_batch w0)))) =
     [[''out'', ''r1'', ''intermediate'', ''r1_model_1_step_0.mmcif''],
      [''out'', ''r1'', ''r1_model_1.cif''],
      [''out'', ''r1'', ''intermediate'', ''r1_model_0_step_0.mmcif''],
      [''out'', ''r1'', ''r1_model_0.cif'']]"
  by code_simp

section \<open>Paths carry the rank\<close>

lemma only_writes_refl [simp]: "only_writes P w w"
  by (simp add: only_writes_def)

lemma only_writes_trans: "only_writes P w w1 \<Longrightarrow> only_writes P w1 w2 \<Longrightarrow> only_writes P w w2"
  by (auto simp: only_writes_def)

lemma only_writes_Mkdir: "only_writes P w (emit (Mkdir p) w)"
  by (simp add: only_writes_def emit_def)

lemma only_writes_WriteFile: "P p \<Longrightarrow> only_writes P w (emit (WriteFile p c) w)"
  by (simp add: only_writes_def emit_def)

lemma only_writes_same_trace: "trace w' = trace w \<Longrightarrow> only_writes P w w'"
  by (simp add: only_writes_def)

lemma only_writes_mono: "only_writes P w w' \<Longrightarrow> (\<And>p. P p \<Longrightarrow> Q p) \<Longrightarrow> only_writes Q w w'"
  unfolding only_writes_def
  by (auto simp: list_all_iff split: event.splits)

lemma world_of_simps [simp]: "world_of (Ok v w) = w" "world_of (Raise e w) = w"
  by (simp_all add: world_of_def)

lemma only_writes_and_then:
  assumes "only_writes P w (world_of r)"
    and "\<And>v w1. r = Ok v w1 \<Longrightarrow> only_writes P w1 (world_of (f v w1))"
  shows "only_writes P w (world_of (and_then r f))"
proof (cases r)
  case (Ok v w1)
  with assms(1) have "only_writes P w w1" by simp
  moreover from assms(2) [OF Ok] have "only_writes P w1 (world_of (f v w1))" .
  ultimately show ?thesis using Ok by (simp add: and_then_def only_writes_trans)
next
  case (Raise e w1)
  with assms(1) show ?thesis by (simp add: and_then_def)
qed

lemma only_writes_for_each:
  assumes "\<And>x w1. x \<in> set xs \<Longrightarrow> only_writes P w1 (world_of (f x w1))"
  shows "only_writes P w (world_of (for_each xs f w))"
  using assms
proof (induction xs arbitrary: w)
  case Nil
  then show ?case by simp
next
  case (Cons x xs)
  have step: "only_writes P w (world_of (f x w))" using Cons.prems by simp
  show ?case
  proof (cases "f x w")
    case (Ok u w1)
    have "only_writes P w1 (world_of (for_each xs f w1))"
      using Cons.IH Cons.prems by simp
    with step Ok show ?thesis by (simp add: only_writes_trans)
  next
    case (Raise e w1)
    with step show ?thesis by simp
  qed
qed

lemma starts_with_append [simp]: "starts_with pre (pre @ rest)"
  by (simp add: starts_with_def)

lemma starts_with_length: "starts_with pre s \<Longrightarrow> length pre \<le> length s"
proof -
  assume "starts_with pre s"
  then have "length (take (length pre) s) = length pre" by (simp add: starts_with_def)
  then show ?thesis by (simp add: min_def split: if_splits)
qed

lemma starts_with_npz_name: "starts_with pre s \<Longrightarrow> starts_with pre (npz_name s)"
  using starts_with_length [of pre s] by (auto simp: starts_with_def npz_name_def)

lemma npz_name_idem [simp]: "npz_name (s @ ''.npz'') = s @ ''.npz''"
  by (simp add: npz_name_def)

lemma npz_name_lit [simp]: "npz_name ''.npz'' = ''.npz''"
  by (simp add: npz_name_def)

lemma npz_name_append [simp]: "4 \<le> length s \<Longrightarrow> npz_name (a @ s) = a @ npz_name s"
  by (simp add: npz_name_def)

lemma npz_name_Cons [simp]: "4 \<le> length s \<Longrightarrow> npz_name (c # s) = c # npz_name s"
  using npz_name_append [of s "[c]"] by simp

lemma npz_path_snoc [simp]: "npz_path (d @ [s]) = d @ [npz_name s]"
  by (simp add: npz_path_def)

lemma named_final:
  "starts_with (record_id r @ ''_model_'' @ str_nat k @ ''.'') name \<Longrightarrow>
   named_by_rank wr r k (struct_dir wr r @ [name])"
  by (simp add: named_by_rank_def)

lemma named_side:
  "kind \<in> set [''confidence_'', ''plddt_'', ''pae_'', ''pde_''] \<Longrightarrow>
   starts_with (kind @ record_id r @ ''_model_'' @ str_nat k @ ''.'') name \<Longrightarrow>
   named_by_rank wr r k (struct_dir wr r @ [name])"
  by (auto simp: named_by_rank_def)

lemma named_intermediate:
  "starts_with (record_id r @ ''_model_'' @ str_nat k @ ''_step_'') name \<Longrightarrow>
   named_by_rank wr r k (intermediate_dir wr r @ [name])"
  by (simp add: named_by_rank_def)

lemma trace_assemble_intermediate:
  "trace (world_of (assemble_intermediate st c w)) = trace w"
  by (simp add: assemble_intermediate_def Let_def split: sum.splits)

lemma trace_assemble_final:
  "trace (world_of (assemble_final st c w)) = trace w"
  by (simp add: assemble_final_def split: sum.splits)

lemma intermediate_step_paths:
  "only_writes (rank_names wr r ranks i) w (world_of (intermediate_step wr ranks r st pad i sc w))"
proof -
  have a: "trace (world_of (assemble_intermediate st c w)) = trace w" for c
    by (rule trace_assemble_intermediate)
  show ?thesis
  proof (cases "getitem (snd sc) i")
    case (Inl e) then show ?thesis by (simp add: intermediate_step_def)
  next
    case mc: (Inr mc)
    show ?thesis
    proof (cases "mask_select mc pad")
      case (Inl e) with mc show ?thesis by (simp add: intermediate_step_def)
    next
      case cu: (Inr cu)
      show ?thesis
      proof (cases "assemble_intermediate st cu w")
        case (Raise e w1)
        with a [of cu] have "trace w1 = trace w" by simp
        with mc cu Raise show ?thesis by (simp add: intermediate_step_def only_writes_same_trace)
      next
        case (Ok ns w1)
        with a [of cu] have t: "trace w1 = trace w" by simp
        show ?thesis
        proof (cases "dict_get ranks i")
          case (Inl e)
          with mc cu Ok t show ?thesis by (simp add: intermediate_step_def only_writes_same_trace)
        next
          case (Inr k)
          then have k: "map_of ranks i = Some k" by (simp add: dict_get_def split: option.splits)
          let ?name = "record_id r @ ''_model_'' @ str_nat k @ ''_step_'' @ str_nat (fst sc) @ ''.'' @ output_format wr"
          have sw: "starts_with (record_id r @ ''_model_'' @ str_nat k @ ''_step_'') ?name"
            using starts_with_append [of "record_id r @ ''_model_'' @ str_nat k @ ''_step_''"] by simp
          have n1: "rank_names wr r ranks i (intermediate_dir wr r @ [?name])"
            using k named_intermediate [OF sw] by (auto simp: rank_names_def)
          have n2: "rank_names wr r ranks i (intermediate_dir wr r @ [npz_name ?name])"
            using k named_intermediate [OF starts_with_npz_name [OF sw]] by (auto simp: rank_names_def)
          have "only_writes (rank_names wr r ranks i) w1
              (write_intermediate_file wr (intermediate_dir wr r @ [?name]) (read_structure w1 ns) w1)"
            unfolding write_intermediate_file_def
            using n1 n2
            by (auto intro!: only_writes_WriteFile intro: only_writes_trans [OF only_writes_WriteFile only_writes_WriteFile])
          moreover have "only_writes (rank_names wr r ranks i) w w1" using t by (rule only_writes_same_trace)
          ultimately show ?thesis using mc cu Ok Inr
            by (simp add: intermediate_step_def only_writes_trans)
        qed
      qed
    qed
  qed
qed

lemma intermediate_steps_paths:
  "only_writes (rank_names wr r ranks i) w (world_of (intermediate_steps wr pred ranks r st pad i w))"
proof (cases "intermediate_coords pred")
  case None
  then show ?thesis by (simp add: intermediate_steps_def)
next
  case (Some steps)
  have "only_writes (rank_names wr r ranks i) (emit (Mkdir (intermediate_dir wr r)) w)
      (world_of (for_each (enumerate 0 steps) (intermediate_step wr ranks r st pad i)
         (emit (Mkdir (intermediate_dir wr r)) w)))"
    by (rule only_writes_for_each) (rule intermediate_step_paths)
  with Some show ?thesis
    by (simp add: intermediate_steps_def only_writes_trans [OF only_writes_Mkdir])
qed

lemma trace_final_structure:
  "trace (world_of (final_structure cm r st coord pad i w)) = trace w"
  by (auto simp: final_structure_def assemble_final_def split: sum.splits)

lemma name_starts [simp]:
  "starts_with (kind @ rid @ ''_model_'' @ n @ ''.'') (kind @ rid @ ''_model_'' @ n @ ''.'' @ ext)"
  using starts_with_append [of "kind @ rid @ ''_model_'' @ n @ ''.''" ext] by simp

lemma name_starts_plain [simp]:
  "starts_with (rid @ ''_model_'' @ n @ ''.'') (rid @ ''_model_'' @ n @ ''.'' @ ext)"
  using name_starts [of "[]" rid n ext] by simp

lemma write_structure_paths:
  "only_writes (rank_names wr r ranks i) w (world_of (write_structure wr pred ranks r ns i w))"
proof (cases "dict_get ranks i")
  case (Inl e)
  then show ?thesis by (simp add: write_structure_def Let_def only_writes_Mkdir)
next
  case (Inr k)
  then have k: "map_of ranks i = Some k" by (simp add: dict_get_def split: option.splits)
  have n: "rank_names wr r ranks i (struct_dir wr r @ [record_id r @ ''_model_'' @ str_nat k @ ''.'' @ ext])" for ext
  proof -
    have "named_by_rank wr r k (struct_dir wr r @ [record_id r @ ''_model_'' @ str_nat k @ ''.'' @ ext])"
      by (rule named_final) (rule name_starts_plain)
    with k show ?thesis unfolding rank_names_def by blast
  qed
  have w: "only_writes (rank_names wr r ranks i) w
      (emit (WriteFile (struct_dir wr r @ [record_id r @ ''_model_'' @ str_nat k @ ''.'' @ ext]) c)
         (emit (Mkdir (struct_dir wr r)) w))" for ext c
    by (rule only_writes_trans [OF only_writes_Mkdir], rule only_writes_WriteFile, rule n)
  show ?thesis
    using Inr w [of "''pdb''"] w [of "''cif''"] w [of "''npz''"]
    by (simp add: write_structure_def Let_def split: option.splits sum.splits)
qed

lemma side_name:
  assumes "map_of ranks i = Some k" and "kind \<in> set [''confidence_'', ''plddt_'', ''pae_'', ''pde_'']"
  shows "rank_names wr r ranks i (struct_dir wr r @ [kind @ record_id r @ ''_model_'' @ str_nat k @ ''.'' @ ext])"
proof -
  have "named_by_rank wr r k (struct_dir wr r @ [kind @ record_id r @ ''_model_'' @ str_nat k @ ''.'' @ ext])"
    by (rule named_side [OF assms(2)]) (rule name_starts)
  with assms(1) show ?thesis unfolding rank_names_def by blast
qed

lemma write_confidence_paths:
  "only_writes (rank_names wr r ranks i) w (world_of (write_confidence wr pred ranks r i w))"
proof (cases "plddt pred")
  case None
  then show ?thesis by (simp add: write_confidence_def)
next
  case (Some pl)
  show ?thesis
  proof (cases "dict_get ranks i")
    case (Inl e)
    with Some show ?thesis by (simp add: write_confidence_def)
  next
    case (Inr k)
    then have k: "map_of ranks i = Some k" by (simp add: dict_get_def split: option.splits)
    have a: "only_writes (rank_names wr r ranks i) w
       (emit (WriteFile (struct_dir wr r @ [''confidence_'' @ record_id r @ ''_model_'' @ str_nat k @ ''.'' @ ''json'']) c) w)" for c
      by (rule only_writes_WriteFile, rule side_name [OF k]) simp
    have b: "only_writes (rank_names wr r ranks i) w1
       (emit (WriteFile (struct_dir wr r @ [''plddt_'' @ record_id r @ ''_model_'' @ str_nat k @ ''.'' @ ''npz'']) c) w1)" for c w1
      by (rule only_writes_WriteFile, rule side_name [OF k]) simp
    show ?thesis
      using Some Inr a only_writes_trans [OF a b]
      by (simp add: write_confidence_def Let_def split: sum.splits)
  qed
qed

lemma write_pae_paths:
  "only_writes (rank_names wr r ranks i) w (world_of (write_pae wr pred ranks r i w))"
proof (cases "dict_get ranks i")
  case (Inl e)
  then show ?thesis by (simp add: write_pae_def split: option.splits sum.splits)
next
  case (Inr k)
  then have k: "map_of ranks i = Some k" by (simp add: dict_get_def split: option.splits)
  have b: "only_writes (rank_names wr r ranks i) w
       (emit (WriteFile (struct_dir wr r @ [''pae_'' @ record_id r @ ''_model_'' @ str_nat k @ ''.'' @ ''npz'']) c) w)" for c
    by (rule only_writes_WriteFile, rule side_name [OF k]) simp
  show ?thesis
    using Inr b
    by (simp add: write_pae_def split: option.splits sum.splits)
qed

lemma write_pde_paths:
  "only_writes (rank_names wr r ranks i) w (world_of (write_pde wr pred ranks r i w))"
proof (cases "dict_get ranks i")
  case (Inl e)
  then show ?thesis by (simp add: write_pde_def split: option.splits sum.splits)
next
  case (Inr k)
  then have k: "map_of ranks i = Some k" by (simp add: dict_get_def split: option.splits)
  have b: "only_writes (rank_names wr r ranks i) w
       (emit (WriteFile (struct_dir wr r @ [''pde_'' @ record_id r @ ''_model_'' @ str_nat k @ ''.'' @ ''npz'']) c) w)" for c
    by (rule only_writes_WriteFile, rule side_name [OF k]) simp
  show ?thesis
    using Inr b
    by (simp add: write_pde_def split: option.splits sum.splits)
qed

lemma process_candidate_paths:
  "only_writes (rank_names wr r ranks i) w
     (world_of (process_candidate wr pred ranks cm r st coord pad i w))"
  unfolding process_candidate_def
  by (intro only_writes_and_then intermediate_steps_paths write_structure_paths
      write_confidence_paths write_pae_paths write_pde_paths
      only_writes_same_trace trace_final_structure)

lemma trace_new_structure [simp]: "trace (snd (new_structure s w)) = trace w"
  by (simp add: new_structure_def)

lemma process_record_paths:
  "only_writes (record_names wr r ranks) w
     (world_of (process_record ev wr pred ranks (r, coord, pad_mask) w))"
proof (cases "load ev (data_dir wr @ [record_id r @ ''.npz'']) w")
  case (Raise e w1)
  then have "w1 = w" by (auto simp: load_def split: option.splits)
  with Raise show ?thesis by (simp add: process_record_def)
next
  case (Ok loaded w1)
  then have t1: "trace w1 = trace w" by (auto simp: load_def split: option.splits)
  let ?st = "fst (remove_invalid ev loaded w1)"
  let ?w2 = "snd (remove_invalid ev loaded w1)"
  have t2: "trace ?w2 = trace w" using t1 by (simp add: remove_invalid_def)
  have "only_writes (record_names wr r ranks) ?w2
      (world_of (for_each [0..<length coord]
         (process_candidate wr pred ranks (compute_chain_map (mask loaded)) r ?st coord (to_bool pad_mask)) ?w2))"
  proof (rule only_writes_for_each)
    fix i w3
    show "only_writes (record_names wr r ranks) w3
        (world_of (process_candidate wr pred ranks (compute_chain_map (mask loaded)) r ?st coord (to_bool pad_mask) i w3))"
      by (rule only_writes_mono [OF process_candidate_paths]) (auto simp: rank_names_def record_names_def)
  qed
  with only_writes_same_trace [OF t2, of "record_names wr r ranks"] Ok show ?thesis
    by (simp add: process_record_def Let_def only_writes_trans)
qed

section \<open>The records of a batch\<close>

lemma for_each_single: "for_each [x] f w = f x w"
  by (cases "f x w") simp_all

lemma batch_is_first_record:
  assumes "exception pred = Some False" "record_field b = Some (r # rs)" "coords_field pred = Some cs"
    "masks pred = Some (m # ms)" "scalar_fields pred ''confidence_score'' = Some score"
  shows "snd (write_on_batch_end ev wr pred b w) =
    process_record ev wr pred (idx_to_rank (argsort_descending ev score)) (r, cs, m) w"
  using assms
  by (cases "process_record ev wr pred (idx_to_rank (argsort_descending ev score)) (r, cs, m) w")
    (simp_all add: write_on_batch_end_def batch_body_def)

lemma only_writes_extends: "only_writes P w w' \<Longrightarrow> \<exists>evs. trace w' = trace w @ evs"
  by (auto simp: only_writes_def)

lemma write_structure_Ok_file:
  "write_structure wr pred ranks r ns i w = Ok u w' \<Longrightarrow>
   \<exists>k c. map_of ranks i = Some k \<and>
     trace w' = trace w @ [Mkdir (struct_dir wr r),
       WriteFile (struct_dir wr r @ [record_id r @ ''_model_'' @ str_nat k @ ''.'' @ final_suffix wr]) c]"
  by (auto simp: write_structure_def Let_def emit_def final_suffix_def dict_get_def
      split: sum.splits option.splits if_splits)

lemma process_candidate_Ok_file:
  assumes "process_candidate wr pred ranks cm r st coord pad i w = Ok u w'"
  shows "\<exists>evs. trace w' = trace w @ evs \<and>
    (\<exists>k c. map_of ranks i = Some k \<and>
       WriteFile (struct_dir wr r @ [record_id r @ ''_model_'' @ str_nat k @ ''.'' @ final_suffix wr]) c
         \<in> set evs)"
proof -
  from assms obtain w1 where s1: "intermediate_steps wr pred ranks r st pad i w = Ok () w1"
    by (cases "intermediate_steps wr pred ranks r st pad i w") (auto simp: process_candidate_def and_then_def)
  from assms s1 obtain ns w2 where s2: "final_structure cm r st coord pad i w1 = Ok ns w2"
    by (cases "final_structure cm r st coord pad i w1") (auto simp: process_candidate_def and_then_def)
  from assms s1 s2 obtain w3 where s3: "write_structure wr pred ranks r ns i w2 = Ok () w3"
    by (cases "write_structure wr pred ranks r ns i w2") (auto simp: process_candidate_def and_then_def)
  from assms s1 s2 s3 obtain w4 where s4: "write_confidence wr pred ranks r i w3 = Ok () w4"
    by (cases "write_confidence wr pred ranks r i w3") (auto simp: process_candidate_def and_then_def)
  from assms s1 s2 s3 s4 obtain w5 where s5: "write_pae wr pred ranks r i w4 = Ok () w5"
    by (cases "write_pae wr pred ranks r i w4") (auto simp: process_candidate_def and_then_def)
  from assms s1 s2 s3 s4 s5 have s6: "write_pde wr pred ranks r i w5 = Ok () w'"
    by (simp add: process_candidate_def and_then_def)
  from only_writes_extends [OF intermediate_steps_paths [of wr r ranks i w pred st pad]] s1
  obtain e1 where e1: "trace w1 = trace w @ e1" by auto
  from trace_final_structure [of cm r st coord pad i w1] s2 have e2: "trace w2 = trace w1" by simp
  from write_structure_Ok_file [OF s3] obtain k c where k: "map_of ranks i = Some k"
    and e3: "trace w3 = trace w2 @ [Mkdir (struct_dir wr r),
       WriteFile (struct_dir wr r @ [record_id r @ ''_model_'' @ str_nat k @ ''.'' @ final_suffix wr]) c]"
    by blast
  from only_writes_extends [OF write_confidence_paths [of wr r ranks i w3 pred]] s4
  obtain e4 where e4: "trace w4 = trace w3 @ e4" by auto
  from only_writes_extends [OF write_pae_paths [of wr r ranks i w4 pred]] s5
  obtain e5 where e5: "trace w5 = trace w4 @ e5" by auto
  from only_writes_extends [OF write_pde_paths [of wr r ranks i w5 pred]] s6
  obtain e6 where e6: "trace w' = trace w5 @ e6" by auto
  let ?f = "WriteFile (struct_dir wr r @ [record_id r @ ''_model_'' @ str_nat k @ ''.'' @ final_suffix wr]) c"
  have "trace w' = trace w @ (e1 @ [Mkdir (struct_dir wr r), ?f] @ e4 @ e5 @ e6)"
    using e1 e2 e3 e4 e5 e6 by simp
  moreover have "?f \<in> set (e1 @ [Mkdir (struct_dir wr r), ?f] @ e4 @ e5 @ e6)" by simp
  ultimately show ?thesis using k by blast
qed

lemma for_each_Ok_events:
  assumes "for_each xs f w = Ok u w'"
    and "\<And>x w1 u1 w2. x \<in> set xs \<Longrightarrow> f x w1 = Ok u1 w2 \<Longrightarrow>
           \<exists>evs. trace w2 = trace w1 @ evs \<and> (\<exists>e\<in>set evs. Q x e)"
  shows "\<exists>evs. trace w' = trace w @ evs \<and> (\<forall>x\<in>set xs. \<exists>e\<in>set evs. Q x e)"
  using assms
proof (induction xs arbitrary: w)
  case Nil
  then show ?case by simp
next
  case (Cons x xs)
  from Cons.prems(1) obtain u1 w1 where f: "f x w = Ok u1 w1" and rest: "for_each xs f w1 = Ok u w'"
    by (cases "f x w") auto
  from Cons.prems(2) [OF _ f] obtain e1 where e1: "trace w1 = trace w @ e1" "\<exists>e\<in>set e1. Q x e" by auto
  from Cons.IH [OF rest] Cons.prems(2) obtain e2 where e2: "trace w' = trace w1 @ e2"
    "\<forall>y\<in>set xs. \<exists>e\<in>set e2. Q y e" by (metis list.set_intros(2))
  have "trace w' = trace w @ (e1 @ e2)" using e1 e2 by simp
  moreover have "\<forall>y\<in>set (x # xs). \<exists>e\<in>set (e1 @ e2). Q y e" using e1(2) e2(2) by auto
  ultimately show ?case by blast
qed

lemma process_record_Ok_files:
  assumes "process_record ev wr pred ranks (r, cs, m) w = Ok u w'"
  shows "disk ev (data_dir wr @ [record_id r @ ''.npz'']) \<noteq> None \<and>
    (\<exists>evs. trace w' = trace w @ evs \<and>
       (\<forall>i<length cs. \<exists>k c. map_of ranks i = Some k \<and>
          WriteFile (struct_dir wr r @ [record_id r @ ''_model_'' @ str_nat k @ ''.'' @ final_suffix wr]) c
            \<in> set evs))"
proof -
  from assms obtain loaded w1 where ld: "load ev (data_dir wr @ [record_id r @ ''.npz'']) w = Ok loaded w1"
    by (cases "load ev (data_dir wr @ [record_id r @ ''.npz'']) w") (auto simp: process_record_def)
  then have d: "disk ev (data_dir wr @ [record_id r @ ''.npz'']) \<noteq> None" and t1: "trace w1 = trace w"
    by (auto simp: load_def split: option.splits)
  let ?st = "fst (remove_invalid ev loaded w1)"
  let ?w2 = "snd (remove_invalid ev loaded w1)"
  let ?Q = "\<lambda>i e. \<exists>k c. map_of ranks i = Some k \<and>
      e = WriteFile (struct_dir wr r @ [record_id r @ ''_model_'' @ str_nat k @ ''.'' @ final_suffix wr]) c"
  have t2: "trace ?w2 = trace w" using t1 by (simp add: remove_invalid_def)
  from assms ld have fe: "for_each [0..<length cs]
      (process_candidate wr pred ranks (compute_chain_map (mask loaded)) r ?st cs (to_bool m)) ?w2 = Ok u w'"
    by (simp add: process_record_def Let_def)
  have "\<exists>evs. trace w' = trace ?w2 @ evs \<and> (\<forall>i\<in>set [0..<length cs]. \<exists>e\<in>set evs. ?Q i e)"
  proof (rule for_each_Ok_events [OF fe])
    fix i w3 u1 w4
    assume "process_candidate wr pred ranks (compute_chain_map (mask loaded)) r ?st cs (to_bool m) i w3 = Ok u1 w4"
    from process_candidate_Ok_file [OF this]
    show "\<exists>evs. trace w4 = trace w3 @ evs \<and> (\<exists>e\<in>set evs. ?Q i e)" by blast
  qed
  then obtain evs where evs: "trace w' = trace ?w2 @ evs"
    "\<forall>i\<in>set [0..<length cs]. \<exists>e\<in>set evs. ?Q i e" by blast
  have "\<forall>i<length cs. \<exists>k c. map_of ranks i = Some k \<and>
          WriteFile (struct_dir wr r @ [record_id r @ ''_model_'' @ str_nat k @ ''.'' @ final_suffix wr]) c
            \<in> set evs"
  proof (intro allI impI)
    fix i assume "i < length cs"
    then have "i \<in> set [0..<length cs]" by simp
    with evs(2) obtain e where "e \<in> set evs" "?Q i e" by blast
    then show "\<exists>k c. map_of ranks i = Some k \<and>
          WriteFile (struct_dir wr r @ [record_id r @ ''_model_'' @ str_nat k @ ''.'' @ final_suffix wr]) c
            \<in> set evs" by blast
  qed
  with evs(1) t2 d show ?thesis by auto
qed

text \<open>
  Claim C2, as amended. For a batch whose exception flag is not set, the call is the
  processing of the first record alone, with the whole \<^verbatim>\<open>coords\<close> tensor and the first
  mask: \<^verbatim>\<open>coords.unsqueeze(0)\<close> has a first axis of length one, so the \<^verbatim>\<open>zip\<close> of line 78
  ends after one record. For that record the base structure is loaded by the record's
  identifier, and when the processing returns normally a structure file has been written
  for every candidate index along the first axis of \<^verbatim>\<open>coords\<close>, named by its rank.
\<close>

theorem batch_processes_first_record:
  "(exception pred = Some False \<and> record_field b = Some (r # rs) \<and> coords_field pred = Some cs \<and>
    masks pred = Some (m # ms) \<and> scalar_fields pred ''confidence_score'' = Some score \<longrightarrow>
      snd (write_on_batch_end ev wr pred b w) =
        process_record ev wr pred (idx_to_rank (argsort_descending ev score)) (r, cs, m) w) \<and>
   (process_record ev wr pred ranks (r, cs, m) w = Ok u w' \<longrightarrow>
      disk ev (data_dir wr @ [record_id r @ ''.npz'']) \<noteq> None \<and>
      (\<exists>evs. trace w' = trace w @ evs \<and>
         (\<forall>i<length cs. \<exists>k c. map_of ranks i = Some k \<and>
            WriteFile (struct_dir wr r @ [record_id r @ ''_model_'' @ str_nat k @ ''.'' @ final_suffix wr]) c
              \<in> set evs)))"
  using batch_is_first_record [of pred b r rs cs m ms score ev wr w]
    process_record_Ok_files [of ev wr pred ranks r cs m w u w']
  by blast

text \<open>
  A batch of two records \<^verbatim>\<open>r1\<close> and \<^verbatim>\<open>r2\<close>, both on disk and each with its mask, is
  written without error and only files of \<^verbatim>\<open>r1\<close> appear.
\<close>

theorem second_record_is_skipped:
  "exception two_pred = Some False \<and>
   map_option (map record_id) (record_field two_batch) = Some [''r1'', ''r2''] \<and>
   map_option length (masks two_pred) = Some 2 \<and>
   disk ex_env [''data'', ''r2.npz''] = Some ex_snapshot \<and>
   raised (snd (write_on_batch_end ex_env ex_writer two_pred two_batch w0)) = None \<and>
   map fst (written (world_of (snd (write_on_batch_end ex_env ex_writer two_pred two_batch w0)))) =
     [[''out'', ''r1'', ''r1_model_1.cif''], [''out'', ''r1'', ''r1_model_0.cif'']]"
  by code_simp

theorem batch_processes_first_record_witness:
  "exception ex_pred = Some False \<and>
   record_field ex_batch = Some [ex_record] \<and>
   snd (write_on_batch_end ex_env ex_writer ex_pred ex_batch w0) =
     process_record ex_env ex_writer ex_pred (idx_to_rank (argsort_descending ex_env [1 / 5, 9 / 10]))
       (ex_record, ex_coords, [1, 1, 0, 1]) w0 \<and>
   raised (process_record ex_env ex_writer ex_pred (idx_to_rank (argsort_descending ex_env [1 / 5, 9 / 10]))
       (ex_record, ex_coords, [1, 1, 0, 1]) w0) = None \<and>
   length ex_coords = 2 \<and>
   (\<exists>evs k0 k1 c0 c1.
      trace (world_of (process_record ex_env ex_writer ex_pred
        (idx_to_rank (argsort_descending ex_env [1 / 5, 9 / 10])) (ex_record, ex_coords, [1, 1, 0, 1]) w0)) =
        trace w0 @ evs \<and>
      WriteFile (struct_dir ex_writer ex_record @
        [record_id ex_record @ ''_model_'' @ str_nat k0 @ ''.'' @ final_suffix ex_writer]) c0 \<in> set evs \<and>
      WriteFile (struct_dir ex_writer ex_record @
        [record_id ex_record @ ''_model_'' @ str_nat k1 @ ''.'' @ final_suffix ex_writer]) c1 \<in> set evs \<and>
      map_of (idx_to_rank (argsort_descending ex_env [1 / 5, 9 / 10])) 0 = Some k0 \<and>
      map_of (idx_to_rank (argsort_descending ex_env [1 / 5, 9 / 10])) 1 = Some k1)"
proof -
  let ?ranks = "idx_to_rank (argsort_descending ex_env [1 / 5, 9 / 10])"
  let ?run = "process_record ex_env ex_writer ex_pred ?ranks (ex_record, ex_coords, [1, 1, 0, 1]) w0"
  have h1: "exception ex_pred = Some False" by (simp add: ex_pred_def)
  have h2: "record_field ex_batch = Some (ex_record # [])" by (simp add: ex_batch_def)
  have h3: "coords_field ex_pred = Some ex_coords" by (simp add: ex_pred_def)
  have h4: "masks ex_pred = Some ([1, 1, 0, 1] # [])" by (simp add: ex_pred_def)
  have h5: "scalar_fields ex_pred ''confidence_score'' = Some [1 / 5, 9 / 10]"
    by (simp add: ex_pred_def ex_scalars_def)
  have r: "raised ?run = None" by code_simp
  then have ok: "?run = Ok () (world_of ?run)" using res_is_Ok [of ?run] by simp
  have len: "length ex_coords = 2" by (simp add: ex_coords_def)
  note th = batch_processes_first_record [of ex_pred ex_batch ex_record "[]" ex_coords "[1, 1, 0, 1]" "[]"
      "[1 / 5, 9 / 10]" ex_env ex_writer w0 ?ranks "()" "world_of ?run"]
  from th h1 h2 h3 h4 h5
  have a: "snd (write_on_batch_end ex_env ex_writer ex_pred ex_batch w0) = ?run" by blast
  from th ok obtain evs where evs: "trace (world_of ?run) = trace w0 @ evs"
    "\<forall>i<length ex_coords. \<exists>k c. map_of ?ranks i = Some k \<and>
       WriteFile (struct_dir ex_writer ex_record @
         [record_id ex_record @ ''_model_'' @ str_nat k @ ''.'' @ final_suffix ex_writer]) c \<in> set evs"
    by blast
  from evs(2) len obtain k0 c0 where k0: "map_of ?ranks 0 = Some k0"
     "WriteFile (struct_dir ex_writer ex_record @
         [record_id ex_record @ ''_model_'' @ str_nat k0 @ ''.'' @ final_suffix ex_writer]) c0 \<in> set evs"
    by (metis zero_less_numeral)
  from evs(2) len obtain k1 c1 where k1: "map_of ?ranks 1 = Some k1"
     "WriteFile (struct_dir ex_writer ex_record @
         [record_id ex_record @ ''_model_'' @ str_nat k1 @ ''.'' @ final_suffix ex_writer]) c1 \<in> set evs"
    by (metis one_less_numeral_iff semiring_norm(76))
  from h1 h2 a r len evs(1) k0 k1 show ?thesis by blast
qed

section \<open>Ranking\<close>

text \<open>
  \<^verbatim>\<open>torch.argsort\<close> is a parameter of the model. Whenever the permutation it returns is
  a descending argsort of the scores, every candidate has a rank, the ranks are 0-based
  and one-to-one, and a strictly higher score has a strictly lower rank; the order among
  equal scores is the one \<^verbatim>\<open>argsort\<close> returned. Whatever it returns, every file of the batch
  is named by a record of the batch and a rank of the table computed at line 75.
\<close>

lemma rank_fold_notin:
  "i \<notin> set perm \<Longrightarrow>
   map_of (fold (\<lambda>(rank, idx) d. AList.update idx rank d) (enumerate m perm) acc) i = map_of acc i"
  by (induction perm arbitrary: m acc) (auto simp: update_conv')

lemma rank_fold_nth:
  "distinct perm \<Longrightarrow> k < length perm \<Longrightarrow>
   map_of (fold (\<lambda>(rank, idx) d. AList.update idx rank d) (enumerate m perm) acc) (perm ! k) = Some (m + k)"
proof (induction perm arbitrary: m acc k)
  case Nil
  then show ?case by simp
next
  case (Cons x xs)
  show ?case
  proof (cases k)
    case 0
    with Cons.prems show ?thesis by (simp add: rank_fold_notin update_conv')
  next
    case (Suc k')
    with Cons.prems Cons.IH [of k' "Suc m" "AList.update x m acc"] show ?thesis by simp
  qed
qed

lemma idx_to_rank_nth:
  "distinct perm \<Longrightarrow> k < length perm \<Longrightarrow> map_of (idx_to_rank perm) (perm ! k) = Some k"
  using rank_fold_nth [of perm k 0 "[]"] by (simp add: idx_to_rank_def)

lemma idx_to_rank_notin: "i \<notin> set perm \<Longrightarrow> map_of (idx_to_rank perm) i = None"
  using rank_fold_notin [of i perm 0 "[]"] by (simp add: idx_to_rank_def)

lemma idx_to_rank_Some:
  assumes "distinct perm" and "map_of (idx_to_rank perm) i = Some k"
  shows "k < length perm \<and> perm ! k = i"
proof -
  from assms(2) idx_to_rank_notin [of i perm] have "i \<in> set perm" by auto
  then obtain k' where k': "k' < length perm" "perm ! k' = i" by (auto simp: in_set_conv_nth)
  with idx_to_rank_nth [OF assms(1) k'(1)] assms(2) show ?thesis by simp
qed

lemma argsort_set:
  assumes "is_argsort_descending score perm"
  shows "set perm = {0..<length score}"
proof (rule card_subset_eq)
  show "finite {0..<length score}" by simp
  show "set perm \<subseteq> {0..<length score}"
    using assms by (auto simp: is_argsort_descending_def list_all_iff)
  have "card (set perm) = length perm" using assms by (simp add: is_argsort_descending_def distinct_card)
  then show "card (set perm) = card {0..<length score}"
    using assms by (simp add: is_argsort_descending_def)
qed

lemma rank_exists:
  assumes "is_argsort_descending score perm" and "i < length score"
  shows "\<exists>k<length score. map_of (idx_to_rank perm) i = Some k \<and> perm ! k = i"
proof -
  from argsort_set [OF assms(1)] assms(2) have "i \<in> set perm" by simp
  then obtain k where k: "k < length perm" "perm ! k = i" by (auto simp: in_set_conv_nth)
  from assms(1) have d: "distinct perm" and l: "length perm = length score"
    by (simp_all add: is_argsort_descending_def)
  from idx_to_rank_nth [OF d k(1)] k l show ?thesis by auto
qed

lemma rank_descending:
  assumes "is_argsort_descending score perm"
    and "map_of (idx_to_rank perm) i = Some ki" and "map_of (idx_to_rank perm) j = Some kj"
    and "score ! j < score ! i"
  shows "ki < kj"
proof (rule ccontr)
  assume "\<not> ki < kj"
  from assms(1) have d: "distinct perm"
    and s: "sorted_wrt (\<lambda>a b. score ! b \<le> score ! a) perm"
    by (simp_all add: is_argsort_descending_def)
  from idx_to_rank_Some [OF d assms(2)] have i: "ki < length perm" "perm ! ki = i" by simp_all
  from idx_to_rank_Some [OF d assms(3)] have j: "kj < length perm" "perm ! kj = j" by simp_all
  from assms(4) i j have "ki \<noteq> kj" by auto
  with \<open>\<not> ki < kj\<close> have "kj < ki" by simp
  from sorted_wrt_nth_less [OF s this i(1)] i j have "score ! i \<le> score ! j" by simp
  with assms(4) show False by simp
qed

lemma rank_injective:
  assumes "is_argsort_descending score perm"
    and "map_of (idx_to_rank perm) i = Some k" and "map_of (idx_to_rank perm) j = Some k"
  shows "i = j"
proof -
  from assms(1) have d: "distinct perm" by (simp add: is_argsort_descending_def)
  from idx_to_rank_Some [OF d assms(2)] idx_to_rank_Some [OF d assms(3)] show ?thesis by simp
qed

lemma batch_paths:
  assumes "record_field b = Some records"
  shows "only_writes (\<lambda>p. \<exists>r\<in>set records. record_names wr r ranks p) w
     (world_of (for_each (zip records (zip [cs] pad_masks)) (process_record ev wr pred ranks) w))"
proof (rule only_writes_for_each)
  fix x w1 assume x: "x \<in> set (zip records (zip [cs] pad_masks))"
  obtain r c m where xr: "x = (r, c, m)" by (cases x) auto
  with x have r: "r \<in> set records" by (auto dest: set_zip_leftD)
  show "only_writes (\<lambda>p. \<exists>r\<in>set records. record_names wr r ranks p) w1
      (world_of (process_record ev wr pred ranks x w1))"
    unfolding xr
    by (rule only_writes_mono [OF process_record_paths]) (use r in blast)
qed

lemma write_on_batch_end_paths:
  assumes "record_field b = Some records"
    and "scalar_fields pred ''confidence_score'' = Some score"
  shows "only_writes (\<lambda>p. \<exists>r\<in>set records. record_names wr r (idx_to_rank (argsort_descending ev score)) p) w
     (world_of (snd (write_on_batch_end ev wr pred b w)))"
  using assms batch_paths [OF assms(1), of wr "idx_to_rank (argsort_descending ev score)" w _ _ ev pred]
  by (simp add: write_on_batch_end_def batch_body_def split: option.splits)

section \<open>The confidence summary in the batch\<close>

lemma for_each_append:
  "for_each (xs @ ys) f w =
     (case for_each xs f w of Ok _ w' \<Rightarrow> for_each ys f w' | Raise e w' \<Rightarrow> Raise e w')"
  by (induction xs arbitrary: w) (auto split: res.splits)

lemma for_each_extends:
  assumes "\<And>x w1. \<exists>evs. trace (world_of (f x w1)) = trace w1 @ evs"
  shows "\<exists>evs. trace (world_of (for_each xs f w)) = trace w @ evs"
proof (induction xs arbitrary: w)
  case Nil
  then show ?case by simp
next
  case (Cons x xs)
  from assms [of x w] obtain e1 where e1: "trace (world_of (f x w)) = trace w @ e1" by blast
  show ?case
  proof (cases "f x w")
    case (Ok u w1)
    from Cons [of w1] obtain e2 where "trace (world_of (for_each xs f w1)) = trace w1 @ e2" by blast
    with e1 Ok show ?thesis by simp
  next
    case (Raise e w1)
    with e1 show ?thesis by simp
  qed
qed

lemma for_each_reaches:
  assumes "for_each xs f w = Ok () w3"
    and "\<And>x w1. \<exists>evs. trace (world_of (f x w1)) = trace w1 @ evs"
  shows "\<exists>evs. trace (world_of (for_each (xs @ x # ys) f w)) = trace (world_of (f x w3)) @ evs"
proof (cases "f x w3")
  case (Ok u w4)
  from for_each_extends [of f ys w4] assms(2)
  obtain evs where "trace (world_of (for_each ys f w4)) = trace w4 @ evs" by blast
  with assms(1) Ok show ?thesis by (simp add: for_each_append)
next
  case (Raise e w4)
  with assms(1) show ?thesis by (simp add: for_each_append)
qed

lemma process_candidate_extends:
  "\<exists>evs. trace (world_of (process_candidate wr pred ranks cm r st coord pad i w)) = trace w @ evs"
  by (rule only_writes_extends [OF process_candidate_paths])

lemma write_confidence_summary_first:
  assumes "plddt pred = Some pl" and "map_of ranks i = Some rank"
    and "confidence_summary pred i = Inr s"
  shows "\<exists>evs. trace (world_of (write_confidence wr pred ranks r i w)) =
       trace w @
       WriteFile (struct_dir wr r @ [''confidence_'' @ record_id r @ ''_model_'' @ str_nat rank @ ''.json''])
         (JsonText s) # evs"
  using assms
  by (auto simp: write_confidence_def dict_get_def Let_def emit_def split: sum.splits)

lemma candidate_reaches_summary:
  assumes "intermediate_steps wr pred ranks r st pad i w = Ok () wa"
    and "final_structure cm r st coord pad i wa = Ok ns wb"
    and "write_structure wr pred ranks r ns i wb = Ok () wc"
    and "plddt pred = Some pl" and "map_of ranks i = Some rank"
    and "confidence_summary pred i = Inr s"
  shows "\<exists>evs. trace (world_of (process_candidate wr pred ranks cm r st coord pad i w)) =
       trace wc @
       WriteFile (struct_dir wr r @ [''confidence_'' @ record_id r @ ''_model_'' @ str_nat rank @ ''.json''])
         (JsonText s) # evs"
proof -
  let ?f = "WriteFile (struct_dir wr r @ [''confidence_'' @ record_id r @ ''_model_'' @ str_nat rank @ ''.json''])
         (JsonText s)"
  from write_confidence_summary_first [OF assms(4,5,6), of wr r wc]
  obtain e1 where e1: "trace (world_of (write_confidence wr pred ranks r i wc)) = trace wc @ ?f # e1"
    by blast
  have pc: "process_candidate wr pred ranks cm r st coord pad i w =
      and_then (write_confidence wr pred ranks r i wc) (\<lambda>_ w4.
      and_then (write_pae wr pred ranks r i w4) (\<lambda>_ w5. write_pde wr pred ranks r i w5))"
    using assms(1,2,3) by (simp add: process_candidate_def and_then_def)
  show ?thesis
  proof (cases "write_confidence wr pred ranks r i wc")
    case (Raise e w4)
    with e1 pc show ?thesis by (simp add: and_then_def)
  next
    case (Ok u w4)
    with e1 have t4: "trace w4 = trace wc @ ?f # e1" by simp
    have "only_writes (rank_names wr r ranks i) w4
        (world_of (and_then (write_pae wr pred ranks r i w4) (\<lambda>_ w5. write_pde wr pred ranks r i w5)))"
      by (intro only_writes_and_then write_pae_paths write_pde_paths)
    from only_writes_extends [OF this] obtain e2 where
      "trace (world_of (and_then (write_pae wr pred ranks r i w4) (\<lambda>_ w5. write_pde wr pred ranks r i w5)))
        = trace w4 @ e2" by blast
    with t4 Ok pc show ?thesis by (simp add: and_then_def)
  qed
qed

lemma record_reaches_summary:
  assumes ld: "load ev (data_dir wr @ [record_id r @ ''.npz'']) w = Ok loaded w1"
    and ri: "remove_invalid ev loaded w1 = (st, w2)"
    and i: "i < length cs"
    and before: "for_each [0..<i]
        (process_candidate wr pred ranks (compute_chain_map (mask loaded)) r st cs (to_bool m)) w2 = Ok () w3"
    and steps: "intermediate_steps wr pred ranks r st (to_bool m) i w3 = Ok () wa"
      "final_structure (compute_chain_map (mask loaded)) r st cs (to_bool m) i wa = Ok ns wb"
      "write_structure wr pred ranks r ns i wb = Ok () wc"
    and conf: "plddt pred = Some pl" "map_of ranks i = Some rank" "confidence_summary pred i = Inr s"
  shows "\<exists>evs. trace (world_of (process_record ev wr pred ranks (r, cs, m) w)) =
       trace wc @
       WriteFile (struct_dir wr r @ [''confidence_'' @ record_id r @ ''_model_'' @ str_nat rank @ ''.json''])
         (JsonText s) # evs"
proof -
  let ?f = "process_candidate wr pred ranks (compute_chain_map (mask loaded)) r st cs (to_bool m)"
  have up: "[0..<length cs] = [0..<i] @ i # [Suc i..<length cs]"
    using i by (metis le_add1 less_imp_add_positive upt_add_eq_append upt_conv_Cons zero_le add_0)
  have pr: "process_record ev wr pred ranks (r, cs, m) w = for_each [0..<length cs] ?f w2"
    using ld ri by (simp add: process_record_def Let_def)
  from for_each_reaches [OF before, of i "[Suc i..<length cs]"] process_candidate_extends
  obtain e1 where e1: "trace (world_of (for_each ([0..<i] @ i # [Suc i..<length cs]) ?f w2)) =
      trace (world_of (?f i w3)) @ e1" by blast
  from candidate_reaches_summary [OF steps conf]
  obtain e2 where "trace (world_of (?f i w3)) = trace wc @
       WriteFile (struct_dir wr r @ [''confidence_'' @ record_id r @ ''_model_'' @ str_nat rank @ ''.json''])
         (JsonText s) # e2" by blast
  with e1 pr up show ?thesis by simp
qed

lemma dict_get_Inr_distinct:
  "distinct (map fst d) \<Longrightarrow> (k, v) \<in> set d \<Longrightarrow> dict_get d k = Inr v' \<Longrightarrow> v' = v"
  by (simp add: dict_get_def)

lemma confidence_summary_Inr_expected:
  assumes ok: "confidence_summary pred i = Inr s"
    and pc: "pair_chains_iptm pred = Some pc"
    and d1: "distinct (map fst pc)"
    and d2: "\<forall>(k, row)\<in>set pc. distinct (map fst row)"
  shows "s = expected_summary pred pc i \<and> (\<forall>(k, row)\<in>set pc. \<exists>t. map_of row k = Some t)"
proof -
  from ok pc obtain scalars cp pci where
    a: "collect (scalar_entry pred i) scalar_keys = Inr scalars"
    and b: "chains_ptm pc i = Inr cp"
    and c: "collect (pair_row pc i) (map fst pc) = Inr pci"
    by (auto simp: confidence_summary_def split: sum.splits)
  have sc: "\<exists>t. scalar_fields pred k = Some t \<and> i < length t" if "k \<in> set scalar_keys" for k
    using collect_Inr [OF a that]
    by (auto simp: scalar_entry_def getitem_def split: option.splits if_splits)
  have rowd: "distinct (map fst row)" if "(k, row) \<in> set pc" for k row
    using d2 that by auto
  have diag: "\<exists>t. map_of row k = Some t \<and> i < length t" if kr: "(k, row) \<in> set pc" for k row
  proof -
    from kr have "k \<in> set (map fst pc)" by force
    from collect_Inr [OF b [unfolded chains_ptm_def] this]
    obtain y where y: "pair_entry pc i k k = Inr y" by blast
    from dict_get_distinct [OF d1 kr] have g: "dict_get pc k = Inr row" .
    from y g show ?thesis
      by (auto simp: pair_entry_def pair_value_def dict_get_def getitem_def
          split: sum.splits option.splits if_splits)
  qed
  have len: "i < length t" if kr: "(k, row) \<in> set pc" and kt: "(k2, t) \<in> set row" for k row k2 t
  proof -
    from kr have "k \<in> set (map fst pc)" by force
    from collect_Inr [OF c this] obtain y where y: "pair_row pc i k = Inr y" by blast
    from dict_get_distinct [OF d1 kr] have g: "dict_get pc k = Inr row" .
    from y g obtain entries where en: "collect (pair_entry pc i k) (map fst row) = Inr entries"
      by (auto simp: pair_row_def split: sum.splits)
    from kt have "k2 \<in> set (map fst row)" by force
    from collect_Inr [OF en this] obtain z where z: "pair_entry pc i k k2 = Inr z" by blast
    from dict_get_distinct [OF rowd [OF kr] kt] have g2: "dict_get row k2 = Inr t" .
    from z g g2 show ?thesis
      by (auto simp: pair_entry_def pair_value_def getitem_def split: sum.splits if_splits)
  qed
  have "confidence_summary pred i = Inr (expected_summary pred pc i)"
    using sc pc d1 rowd diag len by (intro confidence_summary_expected) blast+
  with ok have "s = expected_summary pred pc i" by simp
  moreover have "\<forall>(k, row)\<in>set pc. \<exists>t. map_of row k = Some t" using diag by blast
  ultimately show ?thesis by blast
qed

lemma write_confidence_Ok_file:
  assumes "write_confidence wr pred ranks r i w = Ok u w'" and "plddt pred = Some pl"
  shows "\<exists>k s evs. map_of ranks i = Some k \<and> confidence_summary pred i = Inr s \<and>
     trace w' = trace w @
       WriteFile (struct_dir wr r @ [''confidence_'' @ record_id r @ ''_model_'' @ str_nat k @ ''.json''])
         (JsonText s) # evs"
  using assms
  by (auto simp: write_confidence_def dict_get_def Let_def emit_def split: sum.splits option.splits)

lemma process_candidate_Ok_summary:
  assumes ok: "process_candidate wr pred ranks cm r st coord pad i w = Ok u w'"
    and pl: "plddt pred = Some pl"
  shows "\<exists>evs. trace w' = trace w @ evs \<and>
    (\<exists>e\<in>set evs. \<exists>k s. map_of ranks i = Some k \<and> confidence_summary pred i = Inr s \<and>
       e = WriteFile (struct_dir wr r @ [''confidence_'' @ record_id r @ ''_model_'' @ str_nat k @ ''.json''])
             (JsonText s))"
proof -
  from ok obtain w1 where s1: "intermediate_steps wr pred ranks r st pad i w = Ok () w1"
    by (cases "intermediate_steps wr pred ranks r st pad i w") (auto simp: process_candidate_def and_then_def)
  from ok s1 obtain ns w2 where s2: "final_structure cm r st coord pad i w1 = Ok ns w2"
    by (cases "final_structure cm r st coord pad i w1") (auto simp: process_candidate_def and_then_def)
  from ok s1 s2 obtain w3 where s3: "write_structure wr pred ranks r ns i w2 = Ok () w3"
    by (cases "write_structure wr pred ranks r ns i w2") (auto simp: process_candidate_def and_then_def)
  from ok s1 s2 s3 obtain w4 where s4: "write_confidence wr pred ranks r i w3 = Ok () w4"
    by (cases "write_confidence wr pred ranks r i w3") (auto simp: process_candidate_def and_then_def)
  from ok s1 s2 s3 s4 obtain w5 where s5: "write_pae wr pred ranks r i w4 = Ok () w5"
    by (cases "write_pae wr pred ranks r i w4") (auto simp: process_candidate_def and_then_def)
  from ok s1 s2 s3 s4 s5 have s6: "write_pde wr pred ranks r i w5 = Ok () w'"
    by (simp add: process_candidate_def and_then_def)
  from only_writes_extends [OF intermediate_steps_paths [of wr r ranks i w pred st pad]] s1
  obtain e1 where e1: "trace w1 = trace w @ e1" by auto
  from trace_final_structure [of cm r st coord pad i w1] s2 have e2: "trace w2 = trace w1" by simp
  from only_writes_extends [OF write_structure_paths [of wr r ranks i w2 pred ns]] s3
  obtain e3 where e3: "trace w3 = trace w2 @ e3" by auto
  from write_confidence_Ok_file [OF s4 pl] obtain k s e4 where k: "map_of ranks i = Some k"
    and cs: "confidence_summary pred i = Inr s"
    and e4: "trace w4 = trace w3 @
       WriteFile (struct_dir wr r @ [''confidence_'' @ record_id r @ ''_model_'' @ str_nat k @ ''.json''])
         (JsonText s) # e4" by blast
  from only_writes_extends [OF write_pae_paths [of wr r ranks i w4 pred]] s5
  obtain e5 where e5: "trace w5 = trace w4 @ e5" by auto
  from only_writes_extends [OF write_pde_paths [of wr r ranks i w5 pred]] s6
  obtain e6 where e6: "trace w' = trace w5 @ e6" by auto
  let ?f = "WriteFile (struct_dir wr r @ [''confidence_'' @ record_id r @ ''_model_'' @ str_nat k @ ''.json''])
         (JsonText s)"
  have "trace w' = trace w @ (e1 @ e3 @ ?f # e4 @ e5 @ e6)"
    using e1 e2 e3 e4 e5 e6 by simp
  moreover have "?f \<in> set (e1 @ e3 @ ?f # e4 @ e5 @ e6)" by simp
  ultimately show ?thesis using k cs by blast
qed

lemma process_record_Ok_summaries:
  assumes ok: "process_record ev wr pred ranks (r, cs, m) w = Ok u w'"
    and pl: "plddt pred = Some pl"
    and pc: "pair_chains_iptm pred = Some pc"
    and d1: "distinct (map fst pc)"
    and d2: "\<forall>(k, row)\<in>set pc. distinct (map fst row)"
  shows "\<exists>evs. trace w' = trace w @ evs \<and>
       (\<forall>j<length cs. \<exists>k. map_of ranks j = Some k \<and>
          WriteFile (struct_dir wr r @ [''confidence_'' @ record_id r @ ''_model_'' @ str_nat k @ ''.json''])
            (JsonText (expected_summary pred pc j)) \<in> set evs)"
proof -
  from ok obtain loaded w1 where ld: "load ev (data_dir wr @ [record_id r @ ''.npz'']) w = Ok loaded w1"
    by (cases "load ev (data_dir wr @ [record_id r @ ''.npz'']) w") (auto simp: process_record_def)
  then have t1: "trace w1 = trace w" by (auto simp: load_def split: option.splits)
  let ?st = "fst (remove_invalid ev loaded w1)"
  let ?w2 = "snd (remove_invalid ev loaded w1)"
  let ?Q = "\<lambda>j e. \<exists>k. map_of ranks j = Some k \<and>
      e = WriteFile (struct_dir wr r @ [''confidence_'' @ record_id r @ ''_model_'' @ str_nat k @ ''.json''])
            (JsonText (expected_summary pred pc j))"
  have t2: "trace ?w2 = trace w" using t1 by (simp add: remove_invalid_def)
  from ok ld have fe: "for_each [0..<length cs]
      (process_candidate wr pred ranks (compute_chain_map (mask loaded)) r ?st cs (to_bool m)) ?w2 = Ok u w'"
    by (simp add: process_record_def Let_def)
  have "\<exists>evs. trace w' = trace ?w2 @ evs \<and> (\<forall>j\<in>set [0..<length cs]. \<exists>e\<in>set evs. ?Q j e)"
  proof (rule for_each_Ok_events [OF fe])
    fix j w3 u1 w4
    assume "process_candidate wr pred ranks (compute_chain_map (mask loaded)) r ?st cs (to_bool m) j w3 = Ok u1 w4"
    from process_candidate_Ok_summary [OF this pl]
    obtain evs e k s where evs: "trace w4 = trace w3 @ evs" "e \<in> set evs" "map_of ranks j = Some k"
      "confidence_summary pred j = Inr s"
      "e = WriteFile (struct_dir wr r @ [''confidence_'' @ record_id r @ ''_model_'' @ str_nat k @ ''.json''])
             (JsonText s)" by blast
    from confidence_summary_Inr_expected [OF evs(4) pc d1 d2] have "s = expected_summary pred pc j" by blast
    with evs show "\<exists>evs. trace w4 = trace w3 @ evs \<and> (\<exists>e\<in>set evs. ?Q j e)" by blast
  qed
  then obtain evs where evs: "trace w' = trace ?w2 @ evs"
    "\<forall>j\<in>set [0..<length cs]. \<exists>e\<in>set evs. ?Q j e" by blast
  have "\<forall>j<length cs. \<exists>k. map_of ranks j = Some k \<and>
          WriteFile (struct_dir wr r @ [''confidence_'' @ record_id r @ ''_model_'' @ str_nat k @ ''.json''])
            (JsonText (expected_summary pred pc j)) \<in> set evs"
  proof (intro allI impI)
    fix j assume "j < length cs"
    then have "j \<in> set [0..<length cs]" by simp
    with evs(2) obtain e where "e \<in> set evs" "?Q j e" by blast
    then show "\<exists>k. map_of ranks j = Some k \<and>
          WriteFile (struct_dir wr r @ [''confidence_'' @ record_id r @ ''_model_'' @ str_nat k @ ''.json''])
            (JsonText (expected_summary pred pc j)) \<in> set evs" by blast
  qed
  with evs(1) t2 show ?thesis by auto
qed

text \<open>
  Claim C7, as amended. The summary is written when \<^verbatim>\<open>plddt\<close> is in the prediction
  (line 190), not whenever the scalar fields are. For a batch with \<^verbatim>\<open>plddt\<close> and a pairwise
  table (a dictionary of dictionaries, so with distinct keys):
  \<^item> once the call has written the structure file of candidate \<open>i\<close> (the record loaded,
    the candidates before \<open>i\<close> done, the steps of \<open>i\<close> up to its structure file done) and
    the nine scalar fields and the entries of the table, a diagonal entry for each chain
    among them, hold a value for \<open>i\<close>, the next file the call writes is the summary of
    \<open>i\<close>, at \<^verbatim>\<open>confidence_<id>_model_<rank>.json\<close>;
  \<^item> when the call returns normally, the summary of every candidate has been written;
  \<^item> in the summary each scalar field is a plain number, \<^verbatim>\<open>chains_ptm[k]\<close> equals
    \<^verbatim>\<open>pair_chains_iptm[k][k]\<close>, and the pairs are exactly those of the batch, in its order.
\<close>

theorem confidence_summary_written:
  assumes "exception pred = Some False"
    and "record_field b = Some (r # rs)"
    and "coords_field pred = Some cs"
    and "masks pred = Some (m # ms)"
    and "scalar_fields pred ''confidence_score'' = Some score"
    and "ranks = idx_to_rank (argsort_descending ev score)"
    and "plddt pred = Some pl"
    and "pair_chains_iptm pred = Some pc"
    and "distinct (map fst pc)"
    and "\<forall>(k, row)\<in>set pc. distinct (map fst row)"
  shows
   "(load ev (data_dir wr @ [record_id r @ ''.npz'']) w = Ok loaded w1 \<and>
     remove_invalid ev loaded w1 = (st, w2) \<and>
     i < length cs \<and>
     for_each [0..<i]
       (process_candidate wr pred ranks (compute_chain_map (mask loaded)) r st cs (to_bool m)) w2 = Ok () w3 \<and>
     intermediate_steps wr pred ranks r st (to_bool m) i w3 = Ok () wa \<and>
     final_structure (compute_chain_map (mask loaded)) r st cs (to_bool m) i wa = Ok ns wb \<and>
     write_structure wr pred ranks r ns i wb = Ok () wc \<and>
     (\<forall>k\<in>set scalar_keys. \<exists>t. scalar_fields pred k = Some t \<and> i < length t) \<and>
     (\<forall>(k, row)\<in>set pc. (\<exists>t. map_of row k = Some t) \<and> (\<forall>(k2, t)\<in>set row. i < length t)) \<longrightarrow>
       (\<exists>rank evs. map_of ranks i = Some rank \<and>
          confidence_summary pred i = Inr (expected_summary pred pc i) \<and>
          trace (world_of (snd (write_on_batch_end ev wr pred b w))) =
            trace wc @
            WriteFile (struct_dir wr r @ [''confidence_'' @ record_id r @ ''_model_'' @ str_nat rank @ ''.json''])
              (JsonText (expected_summary pred pc i)) # evs)) \<and>
    (snd (write_on_batch_end ev wr pred b w) = Ok u w' \<longrightarrow>
       (\<exists>evs. trace w' = trace w @ evs \<and>
          (\<forall>j<length cs. \<exists>k. map_of ranks j = Some k \<and>
             WriteFile (struct_dir wr r @ [''confidence_'' @ record_id r @ ''_model_'' @ str_nat k @ ''.json''])
               (JsonText (expected_summary pred pc j)) \<in> set evs))) \<and>
    (\<forall>j. \<forall>k\<in>set scalar_keys.
       py_path (expected_summary pred pc j) [KStr k] = Some (PFloat (the (scalar_fields pred k) ! j))) \<and>
    (\<forall>j. \<forall>(k, row)\<in>set pc. (\<exists>t. map_of row k = Some t) \<longrightarrow>
       py_path (expected_summary pred pc j) [KStr ''chains_ptm'', KInt k] =
       py_path (expected_summary pred pc j) [KStr ''pair_chains_iptm'', KInt k, KInt k] \<and>
       py_path (expected_summary pred pc j) [KStr ''chains_ptm'', KInt k] =
       Some (PFloat (the (map_of row k) ! j)))"
proof (intro conjI impI allI)
  assume h: "load ev (data_dir wr @ [record_id r @ ''.npz'']) w = Ok loaded w1 \<and>
     remove_invalid ev loaded w1 = (st, w2) \<and>
     i < length cs \<and>
     for_each [0..<i]
       (process_candidate wr pred ranks (compute_chain_map (mask loaded)) r st cs (to_bool m)) w2 = Ok () w3 \<and>
     intermediate_steps wr pred ranks r st (to_bool m) i w3 = Ok () wa \<and>
     final_structure (compute_chain_map (mask loaded)) r st cs (to_bool m) i wa = Ok ns wb \<and>
     write_structure wr pred ranks r ns i wb = Ok () wc \<and>
     (\<forall>k\<in>set scalar_keys. \<exists>t. scalar_fields pred k = Some t \<and> i < length t) \<and>
     (\<forall>(k, row)\<in>set pc. (\<exists>t. map_of row k = Some t) \<and> (\<forall>(k2, t)\<in>set row. i < length t))"
  have row: "distinct (map fst row)" "\<exists>t. map_of row k = Some t" "\<And>k2 t. (k2, t) \<in> set row \<Longrightarrow> i < length t"
    if "(k, row) \<in> set pc" for k row
    using assms(10) h that by auto
  have diag: "\<exists>t. map_of row k = Some t \<and> i < length t" if "(k, row) \<in> set pc" for k row
  proof -
    from row(2) [OF that] obtain t where t: "map_of row k = Some t" by blast
    then have "(k, t) \<in> set row" by (rule map_of_SomeD)
    with row(3) [OF that] t show ?thesis by blast
  qed
  have sc: "\<And>k. k \<in> set scalar_keys \<Longrightarrow> \<exists>t. scalar_fields pred k = Some t \<and> i < length t"
    using h by blast
  have s: "confidence_summary pred i = Inr (expected_summary pred pc i)"
    using sc assms(8) assms(9) row(1) diag row(3)
    by (intro confidence_summary_expected) blast+
  from h write_structure_Ok_file [of wr pred ranks r ns i wb "()" wc]
  obtain rank where rank: "map_of ranks i = Some rank" by blast
  from h have ld: "load ev (data_dir wr @ [record_id r @ ''.npz'']) w = Ok loaded w1"
    and ri: "remove_invalid ev loaded w1 = (st, w2)" and i: "i < length cs"
    and before: "for_each [0..<i]
       (process_candidate wr pred ranks (compute_chain_map (mask loaded)) r st cs (to_bool m)) w2 = Ok () w3"
    and s1: "intermediate_steps wr pred ranks r st (to_bool m) i w3 = Ok () wa"
    and s2: "final_structure (compute_chain_map (mask loaded)) r st cs (to_bool m) i wa = Ok ns wb"
    and s3: "write_structure wr pred ranks r ns i wb = Ok () wc"
    by blast+
  from record_reaches_summary [OF ld ri i before s1 s2 s3 assms(7) rank s]
  obtain evs where "trace (world_of (process_record ev wr pred ranks (r, cs, m) w)) =
       trace wc @
       WriteFile (struct_dir wr r @ [''confidence_'' @ record_id r @ ''_model_'' @ str_nat rank @ ''.json''])
         (JsonText (expected_summary pred pc i)) # evs" by blast
  moreover have "snd (write_on_batch_end ev wr pred b w) = process_record ev wr pred ranks (r, cs, m) w"
    unfolding assms(6) by (rule batch_is_first_record [OF assms(1-5)])
  ultimately show "\<exists>rank evs. map_of ranks i = Some rank \<and>
          confidence_summary pred i = Inr (expected_summary pred pc i) \<and>
          trace (world_of (snd (write_on_batch_end ev wr pred b w))) =
            trace wc @
            WriteFile (struct_dir wr r @ [''confidence_'' @ record_id r @ ''_model_'' @ str_nat rank @ ''.json''])
              (JsonText (expected_summary pred pc i)) # evs"
    using rank s by auto
next
  assume ok: "snd (write_on_batch_end ev wr pred b w) = Ok u w'"
  have "snd (write_on_batch_end ev wr pred b w) = process_record ev wr pred ranks (r, cs, m) w"
    unfolding assms(6) by (rule batch_is_first_record [OF assms(1-5)])
  with ok have "process_record ev wr pred ranks (r, cs, m) w = Ok u w'" by simp
  from process_record_Ok_summaries [OF this assms(7) assms(8) assms(9) assms(10)]
  show "\<exists>evs. trace w' = trace w @ evs \<and>
          (\<forall>j<length cs. \<exists>k. map_of ranks j = Some k \<and>
             WriteFile (struct_dir wr r @ [''confidence_'' @ record_id r @ ''_model_'' @ str_nat k @ ''.json''])
               (JsonText (expected_summary pred pc j)) \<in> set evs)" .
next
  fix j
  show "\<forall>k\<in>set scalar_keys.
       py_path (expected_summary pred pc j) [KStr k] = Some (PFloat (the (scalar_fields pred k) ! j))"
    by (simp add: summary_scalar)
next
  fix j
  show "\<forall>(k, row)\<in>set pc. (\<exists>t. map_of row k = Some t) \<longrightarrow>
       py_path (expected_summary pred pc j) [KStr ''chains_ptm'', KInt k] =
       py_path (expected_summary pred pc j) [KStr ''pair_chains_iptm'', KInt k, KInt k] \<and>
       py_path (expected_summary pred pc j) [KStr ''chains_ptm'', KInt k] =
       Some (PFloat (the (map_of row k) ! j))"
  proof (clarify, rule conjI)
    fix k row t assume kr: "(k, row) \<in> set pc" and t: "map_of row k = Some t"
    from assms(10) kr have dr: "distinct (map fst row)" by auto
    note d = summary_diagonal [OF assms(9) kr dr t, of pred j]
    show "py_path (expected_summary pred pc j) [KStr ''chains_ptm'', KInt k] =
       py_path (expected_summary pred pc j) [KStr ''pair_chains_iptm'', KInt k, KInt k]"
      using d by simp
    show "py_path (expected_summary pred pc j) [KStr ''chains_ptm'', KInt k] =
       Some (PFloat (the (map_of row k) ! j))"
      using d t by simp
  qed
qed

text \<open>
  With all nine scalar fields and the pairwise table present but no \<^verbatim>\<open>plddt\<close>, the batch
  is written without error and without any confidence summary.
\<close>

theorem scalars_without_plddt_no_summary:
  "list_all (\<lambda>k. scalar_fields conf_pred k \<noteq> None) scalar_keys \<and>
   pair_chains_iptm conf_pred = Some ex_pairs \<and>
   plddt conf_pred = None \<and>
   raised (snd (write_on_batch_end ex_env ex_writer conf_pred ex_batch w0)) = None \<and>
   map fst (written (world_of (snd (write_on_batch_end ex_env ex_writer conf_pred ex_batch w0)))) =
     [[''out'', ''r1'', ''r1_model_1.cif''], [''out'', ''r1'', ''r1_model_0.cif'']]"
  by code_simp

theorem confidence_summary_written_witness:
  "plddt plddt_pred = Some ex_plddt \<and>
   pair_chains_iptm plddt_pred = Some ex_pairs \<and>
   raised (snd (write_on_batch_end ex_env ex_writer plddt_pred ex_batch w0)) = None \<and>
   (\<exists>rank pre evs.
      map_of (idx_to_rank (argsort_descending ex_env [1 / 5, 9 / 10])) 0 = Some rank \<and>
      trace (world_of (snd (write_on_batch_end ex_env ex_writer plddt_pred ex_batch w0))) =
        pre @
        WriteFile (struct_dir ex_writer ex_record @
            [''confidence_'' @ record_id ex_record @ ''_model_'' @ str_nat rank @ ''.json''])
          (JsonText (expected_summary plddt_pred ex_pairs 0)) # evs) \<and>
   (\<exists>evs k0 k1.
      trace (world_of (snd (write_on_batch_end ex_env ex_writer plddt_pred ex_batch w0))) = trace w0 @ evs \<and>
      map_of (idx_to_rank (argsort_descending ex_env [1 / 5, 9 / 10])) 0 = Some k0 \<and>
      map_of (idx_to_rank (argsort_descending ex_env [1 / 5, 9 / 10])) 1 = Some k1 \<and>
      WriteFile (struct_dir ex_writer ex_record @
            [''confidence_'' @ record_id ex_record @ ''_model_'' @ str_nat k0 @ ''.json''])
          (JsonText (expected_summary plddt_pred ex_pairs 0)) \<in> set evs \<and>
      WriteFile (struct_dir ex_writer ex_record @
            [''confidence_'' @ record_id ex_record @ ''_model_'' @ str_nat k1 @ ''.json''])
          (JsonText (expected_summary plddt_pred ex_pairs 1)) \<in> set evs) \<and>
   py_path (expected_summary plddt_pred ex_pairs 0) [KStr ''chains_ptm'', KInt 0] = Some (PFloat (1 / 2)) \<and>
   py_path (expected_summary plddt_pred ex_pairs 0) [KStr ''pair_chains_iptm'', KInt 0, KInt 0] =
     Some (PFloat (1 / 2))"
proof -
  let ?ranks = "idx_to_rank (argsort_descending ex_env [1 / 5, 9 / 10])"
  let ?run = "snd (write_on_batch_end ex_env ex_writer plddt_pred ex_batch w0)"
  let ?loaded = "fst (new_structure ex_snapshot w0)"
  let ?w1 = "snd (new_structure ex_snapshot w0)"
  let ?st = "fst (remove_invalid ex_env ?loaded ?w1)"
  let ?w2 = "snd (remove_invalid ex_env ?loaded ?w1)"
  let ?pad = "to_bool [1, 1, 0, 1]"
  let ?fin = "final_structure (compute_chain_map (mask ?loaded)) ex_record ?st ex_coords ?pad 0 ?w2"
  let ?ns = "the (value_of ?fin)"
  let ?wb = "world_of ?fin"
  let ?ws = "write_structure ex_writer plddt_pred ?ranks ex_record ?ns 0 ?wb"
  let ?wc = "world_of ?ws"
  have a1: "exception plddt_pred = Some False"
    by (simp add: plddt_pred_def conf_pred_def ex_pred_def)
  have a2: "record_field ex_batch = Some (ex_record # [])" by (simp add: ex_batch_def)
  have a3: "coords_field plddt_pred = Some ex_coords"
    by (simp add: plddt_pred_def conf_pred_def ex_pred_def)
  have a4: "masks plddt_pred = Some ([1, 1, 0, 1] # [])"
    by (simp add: plddt_pred_def conf_pred_def ex_pred_def)
  have a5: "scalar_fields plddt_pred ''confidence_score'' = Some [1 / 5, 9 / 10]"
    by (simp add: plddt_pred_def conf_pred_def full_scalars_def scalar_keys_def)
  have a7: "plddt plddt_pred = Some ex_plddt" by (simp add: plddt_pred_def)
  have a8: "pair_chains_iptm plddt_pred = Some ex_pairs" by (simp add: plddt_pred_def conf_pred_def)
  have a9: "distinct (map fst ex_pairs)" by (simp add: ex_pairs_def)
  have a10: "\<forall>(k, row)\<in>set ex_pairs. distinct (map fst row)" by (simp add: ex_pairs_def)
  have h1: "load ex_env (data_dir ex_writer @ [record_id ex_record @ ''.npz'']) w0 = Ok ?loaded ?w1"
    by (simp add: load_def ex_env_def ex_writer_def ex_record_def ex_disk_def)
  have h2: "remove_invalid ex_env ?loaded ?w1 = (?st, ?w2)" by simp
  have h3: "0 < length ex_coords" by (simp add: ex_coords_def)
  have h4: "for_each [0..<0]
      (process_candidate ex_writer plddt_pred ?ranks (compute_chain_map (mask ?loaded)) ex_record ?st
         ex_coords ?pad) ?w2 = Ok () ?w2" by simp
  have h5: "intermediate_steps ex_writer plddt_pred ?ranks ex_record ?st ?pad 0 ?w2 = Ok () ?w2"
    by (simp add: intermediate_steps_def plddt_pred_def conf_pred_def ex_pred_def)
  have "raised ?fin = None" by code_simp
  then have h6: "?fin = Ok ?ns ?wb" by (rule res_is_Ok)
  have "raised ?ws = None" by code_simp
  then have h7: "?ws = Ok () ?wc" using res_is_Ok [of ?ws] by simp
  have h8: "\<forall>k\<in>set scalar_keys. \<exists>t. scalar_fields plddt_pred k = Some t \<and> 0 < length t"
    by (simp add: plddt_pred_def conf_pred_def full_scalars_def)
  have h9: "\<forall>(k, row)\<in>set ex_pairs. (\<exists>t. map_of row k = Some t) \<and> (\<forall>(k2, t)\<in>set row. 0 < length t)"
    by (simp add: ex_pairs_def)
  have r: "raised ?run = None" by code_simp
  then have ok: "?run = Ok () (world_of ?run)" using res_is_Ok [of ?run] by simp
  have len: "length ex_coords = 2" by (simp add: ex_coords_def)
  note th = confidence_summary_written [OF a1 a2 a3 a4 a5 refl a7 a8 a9 a10,
      where wr = ex_writer and w = w0 and loaded = ?loaded and ?w1.0 = ?w1 and st = ?st and ?w2.0 = ?w2
        and i = 0 and ?w3.0 = ?w2 and wa = ?w2 and ns = ?ns and wb = ?wb and wc = ?wc
        and u = "()" and w' = "world_of ?run"]
  from th h1 h2 h3 h4 h5 h6 h7 h8 h9
  have A: "\<exists>rank evs. map_of ?ranks 0 = Some rank \<and>
          confidence_summary plddt_pred 0 = Inr (expected_summary plddt_pred ex_pairs 0) \<and>
          trace (world_of ?run) =
            trace ?wc @
            WriteFile (struct_dir ex_writer ex_record @
                [''confidence_'' @ record_id ex_record @ ''_model_'' @ str_nat rank @ ''.json''])
              (JsonText (expected_summary plddt_pred ex_pairs 0)) # evs"
    by blast
  then have A': "\<exists>rank pre evs. map_of ?ranks 0 = Some rank \<and>
      trace (world_of ?run) =
        pre @
        WriteFile (struct_dir ex_writer ex_record @
            [''confidence_'' @ record_id ex_record @ ''_model_'' @ str_nat rank @ ''.json''])
          (JsonText (expected_summary plddt_pred ex_pairs 0)) # evs" by blast
  from th ok obtain evs where evs: "trace (world_of ?run) = trace w0 @ evs"
    "\<forall>j<length ex_coords. \<exists>k. map_of ?ranks j = Some k \<and>
       WriteFile (struct_dir ex_writer ex_record @
            [''confidence_'' @ record_id ex_record @ ''_model_'' @ str_nat k @ ''.json''])
          (JsonText (expected_summary plddt_pred ex_pairs j)) \<in> set evs" by blast
  from evs(2) len obtain k0 where k0: "map_of ?ranks 0 = Some k0"
    "WriteFile (struct_dir ex_writer ex_record @
            [''confidence_'' @ record_id ex_record @ ''_model_'' @ str_nat k0 @ ''.json''])
          (JsonText (expected_summary plddt_pred ex_pairs 0)) \<in> set evs"
    by (metis zero_less_numeral)
  from evs(2) len obtain k1 where k1: "map_of ?ranks 1 = Some k1"
    "WriteFile (struct_dir ex_writer ex_record @
            [''confidence_'' @ record_id ex_record @ ''_model_'' @ str_nat k1 @ ''.json''])
          (JsonText (expected_summary plddt_pred ex_pairs 1)) \<in> set evs"
    by (metis one_less_numeral_iff semiring_norm(76))
  have B: "\<exists>evs k0 k1.
      trace (world_of ?run) = trace w0 @ evs \<and>
      map_of ?ranks 0 = Some k0 \<and> map_of ?ranks 1 = Some k1 \<and>
      WriteFile (struct_dir ex_writer ex_record @
            [''confidence_'' @ record_id ex_record @ ''_model_'' @ str_nat k0 @ ''.json''])
          (JsonText (expected_summary plddt_pred ex_pairs 0)) \<in> set evs \<and>
      WriteFile (struct_dir ex_writer ex_record @
            [''confidence_'' @ record_id ex_record @ ''_model_'' @ str_nat k1 @ ''.json''])
          (JsonText (expected_summary plddt_pred ex_pairs 1)) \<in> set evs"
    using evs(1) k0 k1 by blast
  from th have "\<forall>(k, row)\<in>set ex_pairs. (\<exists>t. map_of row k = Some t) \<longrightarrow>
       py_path (expected_summary plddt_pred ex_pairs 0) [KStr ''chains_ptm'', KInt k] =
       py_path (expected_summary plddt_pred ex_pairs 0) [KStr ''pair_chains_iptm'', KInt k, KInt k] \<and>
       py_path (expected_summary plddt_pred ex_pairs 0) [KStr ''chains_ptm'', KInt k] =
       Some (PFloat (the (map_of row k) ! 0))"
    by blast
  moreover have "(0, [(0, [1 / 2, 3 / 5]), (1, [1 / 4, 1 / 3])]) \<in> set ex_pairs"
    by (simp add: ex_pairs_def)
  ultimately have "py_path (expected_summary plddt_pred ex_pairs 0) [KStr ''chains_ptm'', KInt 0] =
       py_path (expected_summary plddt_pred ex_pairs 0) [KStr ''pair_chains_iptm'', KInt 0, KInt 0] \<and>
       py_path (expected_summary plddt_pred ex_pairs 0) [KStr ''chains_ptm'', KInt 0] =
       Some (PFloat (the (map_of [(0 :: nat, [1 / 2, 3 / 5 :: scalar]), (1, [1 / 4, 1 / 3])] 0) ! 0))"
    by fastforce
  then have g: "py_path (expected_summary plddt_pred ex_pairs 0) [KStr ''chains_ptm'', KInt 0] = Some (PFloat (1 / 2))"
    and h: "py_path (expected_summary plddt_pred ex_pairs 0) [KStr ''pair_chains_iptm'', KInt 0, KInt 0] =
     Some (PFloat (1 / 2))"
    by auto
  from a7 a8 r A' B g h show ?thesis by blast
qed

end
